theory Spec2Isabelle
  imports Complex_Main
begin

section \<open>Data model\<close>

text \<open>
  A JavaScript \<open>number\<close> is an IEEE double. Every finite double has an exact rational
  value, and \<open>Number.prototype.toFixed\<close> is specified on that exact value, so a finite
  number is modelled by its rational value; the three non-finite doubles are kept apart.
\<close>

datatype number = Finite rat | NaN | PosInfinity | NegInfinity

text \<open>
  \<open>interface ChartData { time: number; value: number }\<close>. The fetcher also builds points
  without the \<open>value\<close> property, and the readers test \<open>value != null\<close>, which is false
  exactly for \<open>null\<close> and \<open>undefined\<close>: both are \<open>None\<close> here.
\<close>

record ChartData =
  time :: number
  val :: "number option"

section \<open>Number.prototype.toFixed\<close>

text \<open>The decimal digits of a natural number, without leading zeroes (\<open>0\<close> is \<open>''0''\<close>).\<close>

definition digit_char :: "nat \<Rightarrow> char" where
  "digit_char d = ''0123456789'' ! d"

fun digits :: "nat \<Rightarrow> string" where
  "digits n = (if n < 10 then [digit_char n] else digits (n div 10) @ [digit_char (n mod 10)])"

text \<open>
  \<open>toFixed f\<close> after ECMAScript, \<open>Number.prototype.toFixed(fractionDigits)\<close>, on a
  non-negative real: \<open>n\<close> is the integer for which \<open>n / 10^f - x\<close> is closest to zero, the
  larger one on a tie; its digits are padded with zeroes to \<open>f + 1\<close> characters and the
  point is put before the last \<open>f\<close>. From \<open>10^21\<close> on, the standard returns
  \<open>Number::toString(x)\<close> instead, a library function that is the parameter \<open>toStr\<close>.
\<close>

definition toFixed_nonneg :: "(rat \<Rightarrow> string) \<Rightarrow> nat \<Rightarrow> rat \<Rightarrow> string" where
  "toFixed_nonneg toStr f x =
     (if x \<ge> 10 ^ 21 then toStr x
      else
        let n = nat \<lfloor>x * 10 ^ f + 1 / 2\<rfloor>;
            m = digits n
        in if f \<noteq> 0 then
             let m' = (if length m \<le> f then replicate (f + 1 - length m) (CHR ''0'') @ m else m);
                 k = length m'
             in take (k - f) m' @ ''.'' @ drop (k - f) m'
           else m)"

fun toFixed :: "(rat \<Rightarrow> string) \<Rightarrow> nat \<Rightarrow> number \<Rightarrow> string" where
  "toFixed toStr f NaN = ''NaN''"
| "toFixed toStr f PosInfinity = ''Infinity''"
| "toFixed toStr f NegInfinity = ''-Infinity''"
| "toFixed toStr f (Finite x) =
     (if x < 0 then ''-'' @ toFixed_nonneg toStr f (- x) else toFixed_nonneg toStr f x)"

section \<open>Chart renderer: the latest displayable value\<close>

text \<open>
  \<^verbatim>\<open>
  const getLatestValue = (data: ChartData[]) => {
    if (data.length === 0) return 'N/A';
    for (let i = data.length - 1; i >= 0; i--) {
      const value = data[i].value;
      if (value != null) {
        return value.toFixed(1);
      }
    }
    return 'N/A';
  };
  \<close>
  The loop counts \<open>i\<close> down from the last index to \<open>0\<close> and leaves at \<open>i = -1\<close>, so
  \<open>i\<close> is an \<open>int\<close>.
\<close>

function getLatestValue_loop :: "(rat \<Rightarrow> string) \<Rightarrow> ChartData list \<Rightarrow> int \<Rightarrow> string" where
  "getLatestValue_loop toStr data i =
     (if i \<ge> 0 then
        (case val (data ! nat i) of
           Some v \<Rightarrow> toFixed toStr 1 v
         | None \<Rightarrow> getLatestValue_loop toStr data (i - 1))
      else ''N/A'')"
  by pat_completeness auto
termination
  by (relation "measure (\<lambda>(toStr, data, i). nat (i + 1))") auto

definition getLatestValue :: "(rat \<Rightarrow> string) \<Rightarrow> ChartData list \<Rightarrow> string" where
  "getLatestValue toStr data =
     (if length data = 0 then ''N/A''
      else getLatestValue_loop toStr data (int (length data) - 1))"

text \<open>
  The first revision of the function looked at the last point only:
  \<^verbatim>\<open>
    if (data.length === 0) return 'N/A';
    const latestData = data[data.length - 1];
    return latestData.value != null ? latestData.value.toFixed(1) : 'N/A';
  \<close>
\<close>

definition getLatestValue_rev1 :: "(rat \<Rightarrow> string) \<Rightarrow> ChartData list \<Rightarrow> string" where
  "getLatestValue_rev1 toStr data =
     (if length data = 0 then ''N/A''
      else let latestData = data ! (length data - 1)
           in (case val latestData of Some v \<Rightarrow> toFixed toStr 1 v | None \<Rightarrow> ''N/A''))"

section \<open>Config provider\<close>

text \<open>
  \<^verbatim>\<open>
  const config = {
    influxDB: {
      url: process.env.REACT_APP_INFLUXDB_URL || '',
      org: process.env.REACT_APP_INFLUXDB_ORG || '',
      bucket: process.env.REACT_APP_INFLUXDB_BUCKET || '',
      token: process.env.REACT_APP_INFLUXDB_TOKEN || '',
    },
  };
  \<close>
  The module runs in the bundle that \<open>webpack.config.js\<close> builds:
  \<^verbatim>\<open>
  const env = dotenv.config().parsed;
  const envKeys = Object.keys(env).reduce((prev, next) => {
    prev[`process.env.${next}`] = JSON.stringify(env[next]);
    return prev;
  }, {});
  ...
    new webpack.DefinePlugin(envKeys),
  \<close>
  The environment is the parsed \<open>.env\<close> file, a map from names to strings. The build
  replaces \<open>process.env.NAME\<close> by the string literal of its value for every name that is
  a key of \<open>.env\<close>, and for no other name. The bundle runs in a browser and nothing in the
  repository provides a global \<open>process\<close>, so an expression \<open>process.env.NAME\<close> that was
  not replaced throws a \<open>ReferenceError\<close> when it is evaluated, that is while the module
  is loaded. On a string, \<open>x || ''\<close> is \<open>x\<close> when \<open>x\<close> is truthy (not empty) and \<open>''\<close>
  otherwise. The properties of the object are evaluated in the order in which they are
  written.
\<close>

record influxDB =
  url :: string
  org :: string
  bucket :: string
  token :: string

datatype load_error = ReferenceError

definition process_env :: "(string \<Rightarrow> string option) \<Rightarrow> string \<Rightarrow> load_error + string" where
  "process_env env name = (case env name of None \<Rightarrow> Inl ReferenceError | Some s \<Rightarrow> Inr s)"

definition or_empty :: "string \<Rightarrow> string" where
  "or_empty x = (if x = [] then [] else x)"

definition config :: "(string \<Rightarrow> string option) \<Rightarrow> load_error + influxDB" where
  "config env =
     (case process_env env ''REACT_APP_INFLUXDB_URL'' of Inl e \<Rightarrow> Inl e | Inr u \<Rightarrow>
      case process_env env ''REACT_APP_INFLUXDB_ORG'' of Inl e \<Rightarrow> Inl e | Inr g \<Rightarrow>
      case process_env env ''REACT_APP_INFLUXDB_BUCKET'' of Inl e \<Rightarrow> Inl e | Inr b \<Rightarrow>
      case process_env env ''REACT_APP_INFLUXDB_TOKEN'' of Inl e \<Rightarrow> Inl e | Inr t \<Rightarrow>
        Inr \<lparr>url = or_empty u, org = or_empty g, bucket = or_empty b, token = or_empty t\<rparr>)"

section \<open>Metric fetcher\<close>

text \<open>
  The object \<open>obj = tableMeta.toObject(row)\<close> of one row of the result: its \<open>_time\<close> column
  (a string) and its \<open>_value\<close> column, \<open>None\<close> when it is \<open>null\<close> or absent. The conversion
  \<open>new Date(obj._time).getTime()\<close> belongs to the JavaScript library and is the parameter
  \<open>getTime\<close> of the functions below.
\<close>

record row =
  row_time :: string
  row_value :: "number option"

text \<open>
  The \<open>next\<close> callback (current revision), on the array \<open>results\<close> of its closure:
  \<^verbatim>\<open>
  if (obj._value != null) {
    results.push({ time: new Date(obj._time).getTime(), value: obj._value });
  } else {
    results.push({ time: new Date(obj._time).getTime() } as ChartData);
  }
  \<close>
  and in the first revision
  \<^verbatim>\<open>
  results.push({ time: new Date(obj._time).getTime(), value: obj._value });
  \<close>
\<close>

definition next_cb :: "(string \<Rightarrow> number) \<Rightarrow> row \<Rightarrow> ChartData list \<Rightarrow> ChartData list" where
  "next_cb getTime obj results =
     (case row_value obj of
        Some v \<Rightarrow> results @ [\<lparr>time = getTime (row_time obj), val = Some v\<rparr>]
      | None \<Rightarrow> results @ [\<lparr>time = getTime (row_time obj), val = None\<rparr>])"

definition next_cb_rev1 :: "(string \<Rightarrow> number) \<Rightarrow> row \<Rightarrow> ChartData list \<Rightarrow> ChartData list" where
  "next_cb_rev1 getTime obj results =
     results @ [\<lparr>time = getTime (row_time obj), val = row_value obj\<rparr>]"

text \<open>The query text that \<open>fetchInfluxData\<close> builds from the bucket and the field.\<close>

definition fluxQuery :: "string \<Rightarrow> string \<Rightarrow> string" where
  "fluxQuery bkt fld =
     [CHR 0x0A] @
     ''      from(bucket: '' @ [CHR 0x22] @ bkt @ [CHR 0x22] @ '')'' @ [CHR 0x0A] @
     ''        |> range(start: -24h)'' @ [CHR 0x0A] @
     ''        |> filter(fn: (r) => r._measurement == '' @ [CHR 0x22] @ ''ac_remote'' @ [CHR 0x22] @
       '' and r.client_id == '' @ [CHR 0x22] @ ''ESP32Client-4f1da0d8'' @ [CHR 0x22] @ '')'' @ [CHR 0x0A] @
     ''        |> filter(fn: (r) => r._field == '' @ [CHR 0x22] @ fld @ [CHR 0x22] @ '')'' @ [CHR 0x0A] @
     ''        |> aggregateWindow(every: 5m, fn: mean)'' @ [CHR 0x0A] @
     ''        |> yield(name: '' @ [CHR 0x22] @ ''mean'' @ [CHR 0x22] @ '')'' @ [CHR 0x0A] @
     ''    ''"

section \<open>The component state\<close>

text \<open>The five \<open>useState\<close> cells of \<open>App\<close> and their initial values.\<close>

record App_state =
  temperatureData :: "ChartData list"
  humidityData :: "ChartData list"
  pressureData :: "ChartData list"
  loading :: bool
  error :: bool

definition App_initial :: App_state where
  "App_initial =
     \<lparr>temperatureData = [], humidityData = [], pressureData = [], loading = True, error = False\<rparr>"

text \<open>The three setters that \<open>fetchData\<close> hands to \<open>fetchInfluxData\<close>, and the call
  \<open>setData(results)\<close> of such a setter.\<close>

datatype setter = setTemperatureData | setHumidityData | setPressureData

fun setData :: "setter \<Rightarrow> ChartData list \<Rightarrow> App_state \<Rightarrow> App_state" where
  "setData setTemperatureData d s = s\<lparr>temperatureData := d\<rparr>"
| "setData setHumidityData d s = s\<lparr>humidityData := d\<rparr>"
| "setData setPressureData d s = s\<lparr>pressureData := d\<rparr>"

text \<open>The state cell that a setter writes.\<close>

fun getData :: "setter \<Rightarrow> App_state \<Rightarrow> ChartData list" where
  "getData setTemperatureData s = temperatureData s"
| "getData setHumidityData s = humidityData s"
| "getData setPressureData s = pressureData s"

definition setLoading :: "bool \<Rightarrow> App_state \<Rightarrow> App_state" where
  "setLoading b s = s\<lparr>loading := b\<rparr>"

definition setError :: "bool \<Rightarrow> App_state \<Rightarrow> App_state" where
  "setError b s = s\<lparr>error := b\<rparr>"

section \<open>Poll controller: queries in flight, the interval, events\<close>

text \<open>
  One call of \<open>queryApi.queryRows(fluxQuery, {next, error, complete})\<close> that is in flight:
  the request it was made with (\<open>new InfluxDB({url, token}).getQueryApi(org)\<close> and the query
  text) and the closure of its callbacks, that is the setter \<open>setData\<close> and the array
  \<open>results\<close>.
\<close>

record query =
  req_url :: string
  req_token :: string
  req_org :: string
  req_query :: string
  setData_of :: setter
  results :: "ChartData list"

text \<open>
  The world of the component: its state, the queries in flight by the number of the
  \<open>fetchInfluxData\<close> call that made them (\<open>next_id\<close> counts these calls), and whether the
  interval set by the effect is live.
\<close>

record world =
  app :: App_state
  pending :: "nat \<Rightarrow> query option"
  next_id :: nat
  interval :: bool

definition world_initial :: world where
  "world_initial = \<lparr>app = App_initial, pending = (\<lambda>i. None), next_id = 0, interval = False\<rparr>"

text \<open>
  How the two library calls of \<open>fetchInfluxData\<close> behave at one call: both return and the
  query is in flight; the constructor \<open>new InfluxDB(...)\<close> (or \<open>getQueryApi\<close>) throws, which
  is outside the \<open>try\<close>; or \<open>queryRows\<close> throws inside the \<open>try\<close>.
\<close>

datatype launch = Started | ConstructorThrows | QueryRowsThrows

text \<open>
  \<open>fetchInfluxData(field, setData)\<close>. It is an \<open>async\<close> function without \<open>await\<close>: it runs
  to its end when called, and \<open>queryRows\<close> returns as soon as the request is registered;
  the callbacks run later, as events. The second component of the result says whether
  the returned promise is rejected: only an exception outside \<open>try\<close> rejects it, the
  \<open>catch\<close> block calls \<open>setError(true)\<close> and the promise is fulfilled.
\<close>

definition fetchInfluxData ::
  "influxDB \<Rightarrow> string \<Rightarrow> setter \<Rightarrow> launch \<Rightarrow> world \<Rightarrow> world \<times> bool" where
  "fetchInfluxData cfg fld setD l w =
     (let w' = w\<lparr>next_id := Suc (next_id w)\<rparr> in
      case l of
        ConstructorThrows \<Rightarrow> (w', True)
      | QueryRowsThrows \<Rightarrow> (w'\<lparr>app := setError True (app w')\<rparr>, False)
      | Started \<Rightarrow>
          (w'\<lparr>pending := (pending w')(next_id w \<mapsto>
                 \<lparr>req_url = url cfg, req_token = token cfg, req_org = org cfg,
                  req_query = fluxQuery (bucket cfg) fld,
                  setData_of = setD, results = []\<rparr>)\<rparr>, False))"

text \<open>
  \<^verbatim>\<open>
  const fetchData = async () => {
    setLoading(true);
    try {
      await Promise.all([
        fetchInfluxData('temperature', setTemperatureData),
        fetchInfluxData('humidity', setHumidityData),
        fetchInfluxData('pressure', setPressureData)
      ]);
    } catch (err) {
      setError(true);
    } finally {
      setLoading(false);
    }
  };
  \<close>
  The three calls are made one after the other while the array is built; \<open>Promise.all\<close>
  is rejected when one of the three promises is. The three promises are settled when
  the calls return, so the part after \<open>await\<close> runs in a microtask of the same turn of
  the event loop, before any callback of a query: the whole function is one step.
\<close>

definition fetchData :: "influxDB \<Rightarrow> launch \<Rightarrow> launch \<Rightarrow> launch \<Rightarrow> world \<Rightarrow> world" where
  "fetchData cfg l1 l2 l3 w =
     (let w0 = w\<lparr>app := setLoading True (app w)\<rparr>;
          (w1, r1) = fetchInfluxData cfg ''temperature'' setTemperatureData l1 w0;
          (w2, r2) = fetchInfluxData cfg ''humidity'' setHumidityData l2 w1;
          (w3, r3) = fetchInfluxData cfg ''pressure'' setPressureData l3 w2;
          w4 = (if r1 \<or> r2 \<or> r3 then w3\<lparr>app := setError True (app w3)\<rparr> else w3)
      in w4\<lparr>app := setLoading False (app w4)\<rparr>)"

text \<open>
  The effect, run once when the component is mounted:
  \<^verbatim>\<open>
  fetchData();
  const interval = setInterval(fetchData, 60000);
  return () => clearInterval(interval);
  \<close>
\<close>

definition mount :: "influxDB \<Rightarrow> launch \<Rightarrow> launch \<Rightarrow> launch \<Rightarrow> world \<Rightarrow> world" where
  "mount cfg l1 l2 l3 w = (fetchData cfg l1 l2 l3 w)\<lparr>interval := True\<rparr>"

definition cleanup :: "world \<Rightarrow> world" where
  "cleanup w = w\<lparr>interval := False\<rparr>"

text \<open>
  What can happen to a mounted component: the interval fires and runs \<open>fetchData\<close>
  (\<open>Tick\<close>, with the behaviour of the library at the three calls); a query in flight
  delivers a row, fails or completes; the component is unmounted and React runs the
  cleanup of the effect. The library calls \<open>error\<close> or \<open>complete\<close> once, as the last
  callback of a query.
\<close>

datatype event =
    Tick launch launch launch
  | Next nat row
  | Error nat
  | Complete nat
  | Unmount

text \<open>An event that cannot happen in a world (the interval is cleared, the query is
  not in flight) gives \<open>None\<close>.\<close>

fun fire :: "(string \<Rightarrow> number) \<Rightarrow> influxDB \<Rightarrow> event \<Rightarrow> world \<Rightarrow> world option" where
  "fire getTime cfg (Tick l1 l2 l3) w =
     (if interval w then Some (fetchData cfg l1 l2 l3 w) else None)"
| "fire getTime cfg (Next i obj) w =
     (case pending w i of
        None \<Rightarrow> None
      | Some q \<Rightarrow> Some (w\<lparr>pending := (pending w)(i \<mapsto> q\<lparr>results := next_cb getTime obj (results q)\<rparr>)\<rparr>))"
| "fire getTime cfg (Error i) w =
     (case pending w i of
        None \<Rightarrow> None
      | Some q \<Rightarrow> Some (w\<lparr>app := setError True (app w), pending := (pending w)(i := None)\<rparr>))"
| "fire getTime cfg (Complete i) w =
     (case pending w i of
        None \<Rightarrow> None
      | Some q \<Rightarrow> Some (w\<lparr>app := setData (setData_of q) (results q) (app w),
                          pending := (pending w)(i := None)\<rparr>))"
| "fire getTime cfg Unmount w = (if interval w then Some (cleanup w) else None)"

fun run :: "(string \<Rightarrow> number) \<Rightarrow> influxDB \<Rightarrow> event list \<Rightarrow> world \<Rightarrow> world option" where
  "run getTime cfg [] w = Some w"
| "run getTime cfg (e # es) w =
     (case fire getTime cfg e w of None \<Rightarrow> None | Some w' \<Rightarrow> run getTime cfg es w')"

text \<open>The rows that a trace delivers to the query \<open>i\<close>, in the order of the trace.\<close>

fun rows_of :: "nat \<Rightarrow> event list \<Rightarrow> row list" where
  "rows_of i [] = []"
| "rows_of i (Next j obj # es) = (if j = i then obj # rows_of i es else rows_of i es)"
| "rows_of i (e # es) = rows_of i es"

text \<open>The events that start a cycle.\<close>

fun is_Tick :: "event \<Rightarrow> bool" where
  "is_Tick (Tick l1 l2 l3) = True"
| "is_Tick e = False"

text \<open>The position of the call with a given setter in the array that \<open>fetchData\<close> hands
  to \<open>Promise.all\<close>: the query of a cycle started at \<open>next_id = n\<close> has the number
  \<open>n + slot setData\<close>.\<close>

fun slot :: "setter \<Rightarrow> nat" where
  "slot setTemperatureData = 0"
| "slot setHumidityData = 1"
| "slot setPressureData = 2"

section \<open>Root view\<close>

text \<open>
  What \<open>App\<close> returns: the loading message, the error message, or the dashboard with the
  text after \<open>Updated at\<close> and the three charts. Of a chart the model keeps what
  \<open>renderChart\<close> computes or passes on: the title, the summary paragraph, the series and
  the two colours handed to the chart library; the axes and the tooltip belong to that
  library. \<open>toLocaleString\<close> stands for \<open>new Date(t).toLocaleString('ja-JP', {...})\<close>. The
  unit of the temperature is the degree Celsius sign U+2103, here its three UTF-8 bytes.
\<close>

record chart =
  chart_title :: string
  chart_summary :: string
  chart_data :: "ChartData list"
  chart_stroke :: string
  chart_fill :: string

datatype view = LoadingMessage | ErrorMessage | Dashboard string "chart list"

definition renderChart ::
  "(rat \<Rightarrow> string) \<Rightarrow> string \<Rightarrow> ChartData list \<Rightarrow> string \<Rightarrow> string \<Rightarrow> string \<Rightarrow> chart" where
  "renderChart toStr ttl data color fillColor unit =
     (let latestValue = getLatestValue toStr data in
      \<lparr>chart_title = ttl,
       chart_summary = (if latestValue \<noteq> ''N/A'' then latestValue @ unit else ''No data available''),
       chart_data = data,
       chart_stroke = color,
       chart_fill = fillColor\<rparr>)"

definition App_render :: "(rat \<Rightarrow> string) \<Rightarrow> (number \<Rightarrow> string) \<Rightarrow> App_state \<Rightarrow> view" where
  "App_render toStr toLocaleString s =
     (if loading s then LoadingMessage
      else if error s then ErrorMessage
      else Dashboard
        (if length (temperatureData s) > 0
         then toLocaleString (time (temperatureData s ! (length (temperatureData s) - 1)))
         else ''N/A'')
        [renderChart toStr ''Temperature'' (temperatureData s)
           ''#8884d8'' ''rgba(136, 132, 216, 0.3)'' [CHR 0xE2, CHR 0x84, CHR 0x83],
         renderChart toStr ''Humidity'' (humidityData s)
           ''#ff7300'' ''rgba(255, 115, 0, 0.3)'' ''%'',
         renderChart toStr ''Pressure'' (pressureData s)
           ''#82ca9d'' ''rgba(130, 202, 157, 0.3)'' ''hPa''])"

fun updated_at :: "view \<Rightarrow> string option" where
  "updated_at (Dashboard u cs) = Some u"
| "updated_at v = None"

section \<open>Sample inputs\<close>

text \<open>A configuration, a clock for \<open>getTime\<close> and the world after the component was mounted
  with that configuration, for the concrete instances below.\<close>

abbreviation (input) sample_config :: influxDB where
  "sample_config \<equiv> \<lparr>url = ''https://db'', org = ''home'', bucket = ''env'', token = ''t0ken''\<rparr>"

abbreviation (input) sample_getTime :: "string \<Rightarrow> number" where
  "sample_getTime \<equiv> (\<lambda>s. if s = ''1970-01-01T00:00:00Z'' then Finite 0
       else if s = ''1970-01-01T00:05:00Z'' then Finite 300000
       else if s = ''1970-01-01T00:10:00Z'' then Finite 600000 else NaN)"

abbreviation (input) sample_mounted :: world where
  "sample_mounted \<equiv> mount sample_config Started Started Started world_initial"

text \<open>The world after a first cycle whose temperature fetch failed, and the events of a
  second cycle in which the three fetches succeed.\<close>

abbreviation (input) sample_failed_once :: world where
  "sample_failed_once \<equiv>
     the (run sample_getTime sample_config [Error 0, Complete 1, Complete 2] sample_mounted)"

abbreviation (input) sample_second_cycle :: "event list" where
  "sample_second_cycle \<equiv>
     [Next 4 \<lparr>row_time = ''1970-01-01T00:00:00Z'', row_value = Some (Finite 55)\<rparr>,
      Next 3 \<lparr>row_time = ''1970-01-01T00:00:00Z'', row_value = Some (Finite (201 / 10))\<rparr>,
      Complete 5,
      Next 3 \<lparr>row_time = ''1970-01-01T00:05:00Z'', row_value = None\<rparr>,
      Complete 3, Complete 4]"

text \<open>Two cycles before a teardown, and what the queries still in flight do after it.\<close>

abbreviation (input) sample_before_teardown :: "event list" where
  "sample_before_teardown \<equiv>
     [Complete 0, Complete 1, Complete 2, Tick Started Started Started, Complete 3]"

abbreviation (input) sample_after_teardown :: "event list" where
  "sample_after_teardown \<equiv>
     [Next 4 \<lparr>row_time = ''1970-01-01T00:00:00Z'', row_value = Some (Finite 55)\<rparr>,
      Complete 4, Error 5]"

section \<open>Evaluation helpers\<close>

lemma floor_rat_numeral: "\<lfloor>(numeral a / numeral b :: rat)\<rfloor> = numeral a div numeral b"
  using floor_divide_of_int_eq[of "numeral a" "numeral b", where ?'a = rat] by simp

lemmas toFixed_eval = toFixed_nonneg_def digit_char_def Let_def floor_rat_numeral

text \<open>Below \<open>10^21\<close> the result of \<open>toFixed(1)\<close> is a sign, at least one digit, the point
  and one digit.\<close>

lemma digit_char_digit: "d < 10 \<Longrightarrow> digit_char d \<in> set ''0123456789''"
proof -
  assume "d < 10"
  then have "d < length ''0123456789''" by simp
  then show ?thesis unfolding digit_char_def by (rule nth_mem)
qed

lemma digits_shape: "digits n \<noteq> [] \<and> set (digits n) \<subseteq> set ''0123456789''"
proof (induction n rule: digits.induct)
  case (1 n)
  show ?case
  proof (cases "n < 10")
    case True
    then show ?thesis using digit_char_digit[of n] by (subst digits.simps, subst digits.simps) simp
  next
    case False
    have "n mod 10 < 10" by simp
    from digit_char_digit[OF this] 1[OF False] False show ?thesis
      by (subst digits.simps, subst digits.simps) simp
  qed
qed

lemma toFixed_nonneg_one_decimal:
  assumes "x < 10 ^ 21"
  shows "\<exists>ds d. toFixed_nonneg toStr 1 x = ds @ ''.'' @ [d] \<and> ds \<noteq> []
            \<and> set (ds @ [d]) \<subseteq> set ''0123456789''"
proof -
  define m where "m = digits (nat \<lfloor>x * 10 ^ 1 + 1 / 2\<rfloor>)"
  define m' where "m' = (if length m \<le> 1 then replicate (1 + 1 - length m) (CHR ''0'') @ m else m)"
  have m: "m \<noteq> [] \<and> set m \<subseteq> set ''0123456789''" unfolding m_def by (rule digits_shape)
  have len: "2 \<le> length m'" using m by (auto simp: m'_def)
  have set: "set m' \<subseteq> set ''0123456789''" using m by (auto simp: m'_def)
  have res: "toFixed_nonneg toStr 1 x = take (length m' - 1) m' @ ''.'' @ drop (length m' - 1) m'"
    using assms unfolding toFixed_nonneg_def m'_def m_def Let_def by (simp del: digits.simps)
  have d: "drop (length m' - 1) m' = [last m']"
    using len by (cases m' rule: rev_cases) auto
  have t: "take (length m' - 1) m' = butlast m'" by (simp add: butlast_conv_take)
  have ne: "butlast m' \<noteq> []" using len by (cases m' rule: rev_cases) auto
  have "set (butlast m' @ [last m']) \<subseteq> set ''0123456789''"
    using len set by (cases m' rule: rev_cases) auto
  with res d t ne show ?thesis by (intro exI[of _ "butlast m'"] exI[of _ "last m'"]) simp
qed

lemma toFixed_one_decimal:
  assumes "\<bar>x\<bar> < 10 ^ 21"
  shows "\<exists>sign ds d. toFixed toStr 1 (Finite x) = sign @ ds @ ''.'' @ [d]
            \<and> sign = (if x < 0 then ''-'' else []) \<and> ds \<noteq> []
            \<and> set (ds @ [d]) \<subseteq> set ''0123456789''"
proof (cases "x < 0")
  case True
  then have "- x < 10 ^ 21" using assms by simp
  from toFixed_nonneg_one_decimal[OF this, of toStr] True show ?thesis by auto
next
  case False
  then have "x < 10 ^ 21" using assms by simp
  from toFixed_nonneg_one_decimal[OF this, of toStr] False show ?thesis by auto
qed

section \<open>The latest displayable value\<close>

lemma getLatestValue_loop_exit: "i < 0 \<Longrightarrow> getLatestValue_loop toStr data i = ''N/A''"
  by simp

lemma getLatestValue_loop_hit:
  "val p = Some v \<Longrightarrow>
   getLatestValue_loop toStr (pre @ p # rest) (int (length pre)) = toFixed toStr 1 v"
  by simp

text \<open>A run of valueless points is skipped: the loop started on its last index arrives
  just before its first.\<close>

lemma getLatestValue_loop_skip:
  "\<forall>g\<in>set gaps. val g = None \<Longrightarrow>
   getLatestValue_loop toStr (pre @ gaps @ rest) (int (length pre + length gaps) - 1)
     = getLatestValue_loop toStr (pre @ gaps @ rest) (int (length pre) - 1)"
proof (induction gaps arbitrary: rest rule: rev_induct)
  case Nil
  then show ?case by simp
next
  case (snoc g gaps)
  have g: "val g = None" using snoc.prems by simp
  have gs: "\<forall>g\<in>set gaps. val g = None" using snoc.prems by simp
  have nth: "(pre @ (gaps @ [g]) @ rest) ! (length pre + length gaps) = g"
    by (simp add: nth_append)
  have "getLatestValue_loop toStr (pre @ (gaps @ [g]) @ rest)
          (int (length pre + length (gaps @ [g])) - 1)
        = getLatestValue_loop toStr (pre @ (gaps @ [g]) @ rest)
          (int (length pre + length gaps) - 1)"
    using g nth
    by (subst getLatestValue_loop.simps) (simp add: nat_add_distrib del: getLatestValue_loop.simps)
  also have "\<dots> = getLatestValue_loop toStr (pre @ gaps @ (g # rest))
          (int (length pre + length gaps) - 1)"
    by simp
  also have "\<dots> = getLatestValue_loop toStr (pre @ gaps @ (g # rest)) (int (length pre) - 1)"
    using snoc.IH[OF gs] .
  finally show ?case by simp
qed

lemma getLatestValue_skip_back:
  assumes "val p = Some v" and "\<forall>g\<in>set gaps. val g = None"
  shows "getLatestValue toStr (pre @ p # gaps) = toFixed toStr 1 v"
proof -
  have "getLatestValue toStr (pre @ p # gaps)
        = getLatestValue_loop toStr ((pre @ [p]) @ gaps @ []) (int (length (pre @ [p]) + length gaps) - 1)"
    by (simp add: getLatestValue_def del: getLatestValue_loop.simps)
  also have "\<dots> = getLatestValue_loop toStr ((pre @ [p]) @ gaps @ []) (int (length (pre @ [p])) - 1)"
    by (rule getLatestValue_loop_skip) (rule assms(2))
  also have "\<dots> = getLatestValue_loop toStr (pre @ p # gaps) (int (length pre))"
    by (simp del: getLatestValue_loop.simps)
  also have "\<dots> = toFixed toStr 1 v"
    by (rule getLatestValue_loop_hit) (rule assms(1))
  finally show ?thesis .
qed

lemma getLatestValue_all_gaps:
  assumes "\<forall>p\<in>set data. val p = None"
  shows "getLatestValue toStr data = ''N/A''"
proof (cases "data = []")
  case True
  then show ?thesis by (simp add: getLatestValue_def)
next
  case False
  have "getLatestValue toStr data
        = getLatestValue_loop toStr ([] @ data @ []) (int (length ([]::ChartData list) + length data) - 1)"
    using False by (simp add: getLatestValue_def del: getLatestValue_loop.simps)
  also have "\<dots> = getLatestValue_loop toStr ([] @ data @ []) (int (length ([]::ChartData list)) - 1)"
    by (rule getLatestValue_loop_skip) (rule assms)
  also have "\<dots> = ''N/A''"
    by (rule getLatestValue_loop_exit) simp
  finally show ?thesis .
qed

text \<open>
  C1. For every series, \<open>getLatestValue\<close> returns the last point's value formatted to one
  decimal place (\<open>toFixed(1)\<close>) when the last point has a value; when the last points
  \<open>gaps\<close> are all valueless and the point \<open>p\<close> before them has a value, it returns the value
  of \<open>p\<close> formatted to one decimal place; and when no point of the series has a value, the
  empty series included, it returns the placeholder \<open>'N/A'\<close>.
\<close>

theorem getLatestValue_latest_present:
  "(data \<noteq> [] \<and> val (last data) = Some v \<longrightarrow> getLatestValue toStr data = toFixed toStr 1 v)
   \<and> (val p = Some w \<and> (\<forall>g\<in>set gaps. val g = None) \<longrightarrow>
        getLatestValue toStr (pre @ p # gaps) = toFixed toStr 1 w)
   \<and> ((\<forall>q\<in>set series. val q = None) \<longrightarrow> getLatestValue toStr series = ''N/A'')
   \<and> getLatestValue toStr [] = ''N/A''"
proof (intro conjI impI)
  assume a: "data \<noteq> [] \<and> val (last data) = Some v"
  then have "data = butlast data @ last data # []" by simp
  moreover have "getLatestValue toStr (butlast data @ last data # []) = toFixed toStr 1 v"
    using a by (intro getLatestValue_skip_back) simp_all
  ultimately show "getLatestValue toStr data = toFixed toStr 1 v" by simp
next
  assume "val p = Some w \<and> (\<forall>g\<in>set gaps. val g = None)"
  then show "getLatestValue toStr (pre @ p # gaps) = toFixed toStr 1 w"
    by (intro getLatestValue_skip_back) simp_all
next
  assume "\<forall>q\<in>set series. val q = None"
  then show "getLatestValue toStr series = ''N/A''"
    by (rule getLatestValue_all_gaps)
next
  show "getLatestValue toStr [] = ''N/A''"
    by (simp add: getLatestValue_def)
qed

text \<open>
  The example of the specification: the series \<open>[{t:0,v:20.1},{t:300000,v:null},{t:600000,v:20.4}]\<close>
  displays \<open>20.4\<close>; with the value of the last point null, \<open>20.1\<close>; with every value null,
  \<open>N/A\<close>.
\<close>

theorem getLatestValue_latest_present_witness:
  "val \<lparr>time = Finite 600000, val = Some (Finite (204 / 10))\<rparr> = Some (Finite (204 / 10))
   \<and> getLatestValue (\<lambda>x. [])
        [\<lparr>time = Finite 0, val = Some (Finite (201 / 10))\<rparr>,
         \<lparr>time = Finite 300000, val = None\<rparr>,
         \<lparr>time = Finite 600000, val = Some (Finite (204 / 10))\<rparr>] = ''20.4''
   \<and> val \<lparr>time = Finite 300000, val = None\<rparr> = None
   \<and> val \<lparr>time = Finite 600000, val = None\<rparr> = None
   \<and> getLatestValue (\<lambda>x. [])
        [\<lparr>time = Finite 0, val = Some (Finite (201 / 10))\<rparr>,
         \<lparr>time = Finite 300000, val = None\<rparr>,
         \<lparr>time = Finite 600000, val = None\<rparr>] = ''20.1''
   \<and> getLatestValue (\<lambda>x. [])
        [\<lparr>time = Finite 0, val = None\<rparr>, \<lparr>time = Finite 300000, val = None\<rparr>] = ''N/A''"
  using getLatestValue_latest_present
    [of "[\<lparr>time = Finite 0, val = Some (Finite (201 / 10))\<rparr>,
          \<lparr>time = Finite 300000, val = None\<rparr>,
          \<lparr>time = Finite 600000, val = Some (Finite (204 / 10))\<rparr>]"
        "Finite (204 / 10)" "\<lambda>x. []"
        "\<lparr>time = Finite 0, val = Some (Finite (201 / 10))\<rparr>" "Finite (201 / 10)"
        "[\<lparr>time = Finite 300000, val = None\<rparr>, \<lparr>time = Finite 600000, val = None\<rparr>]"
        "[]"
        "[\<lparr>time = Finite 0, val = None\<rparr>, \<lparr>time = Finite 300000, val = None\<rparr>]"]
  by (simp add: toFixed_eval)

text \<open>The first revision did not skip back: on the second series of the example it
  shows the placeholder.\<close>

lemma getLatestValue_rev1_last_only:
  "getLatestValue_rev1 toStr
     [\<lparr>time = Finite 0, val = Some (Finite (201 / 10))\<rparr>,
      \<lparr>time = Finite 300000, val = None\<rparr>,
      \<lparr>time = Finite 600000, val = None\<rparr>] = ''N/A''"
  by (simp add: getLatestValue_rev1_def)

section \<open>The callbacks and the start of a cycle\<close>

lemma next_cb_push:
  "next_cb gt obj rs = rs @ [\<lparr>time = gt (row_time obj), val = row_value obj\<rparr>]"
  by (cases "row_value obj") (simp_all add: next_cb_def)

lemma next_cb_rev1_same: "next_cb_rev1 gt obj rs = next_cb gt obj rs"
  by (simp add: next_cb_push next_cb_rev1_def)

lemma fetchInfluxData_next_id:
  "next_id (fst (fetchInfluxData cfg fld sd l w)) = Suc (next_id w)"
  by (cases l) (simp_all add: fetchInfluxData_def)

lemma fetchInfluxData_interval:
  "interval (fst (fetchInfluxData cfg fld sd l w)) = interval w"
  by (cases l) (simp_all add: fetchInfluxData_def)

lemma fetchInfluxData_pending:
  "pending (fst (fetchInfluxData cfg fld sd l w)) j =
     (if j = next_id w \<and> l = Started
      then Some \<lparr>req_url = url cfg, req_token = token cfg, req_org = org cfg,
                 req_query = fluxQuery (bucket cfg) fld, setData_of = sd, results = []\<rparr>
      else pending w j)"
  by (cases l) (simp_all add: fetchInfluxData_def)

lemma fetchInfluxData_app:
  "app (fst (fetchInfluxData cfg fld sd l w)) =
     (if l = QueryRowsThrows then setError True (app w) else app w)"
  by (cases l) (simp_all add: fetchInfluxData_def)

lemma fetchInfluxData_rejected:
  "snd (fetchInfluxData cfg fld sd l w) = (l = ConstructorThrows)"
  by (cases l) (simp_all add: fetchInfluxData_def)

lemmas fetchInfluxData_simps = fetchInfluxData_next_id fetchInfluxData_interval
  fetchInfluxData_pending fetchInfluxData_app fetchInfluxData_rejected

lemma fetchData_next_id: "next_id (fetchData cfg l1 l2 l3 w) = next_id w + 3"
  by (simp add: fetchData_def Let_def split_beta fetchInfluxData_simps)

lemma fetchData_interval: "interval (fetchData cfg l1 l2 l3 w) = interval w"
  by (simp add: fetchData_def Let_def split_beta fetchInfluxData_simps)

lemma fetchData_pending:
  "pending (fetchData cfg l1 l2 l3 w) j =
     (if j = next_id w + 2 \<and> l3 = Started
      then Some \<lparr>req_url = url cfg, req_token = token cfg, req_org = org cfg,
                 req_query = fluxQuery (bucket cfg) ''pressure'',
                 setData_of = setPressureData, results = []\<rparr>
      else if j = next_id w + 1 \<and> l2 = Started
      then Some \<lparr>req_url = url cfg, req_token = token cfg, req_org = org cfg,
                 req_query = fluxQuery (bucket cfg) ''humidity'',
                 setData_of = setHumidityData, results = []\<rparr>
      else if j = next_id w \<and> l1 = Started
      then Some \<lparr>req_url = url cfg, req_token = token cfg, req_org = org cfg,
                 req_query = fluxQuery (bucket cfg) ''temperature'',
                 setData_of = setTemperatureData, results = []\<rparr>
      else pending w j)"
  by (simp add: fetchData_def Let_def split_beta fetchInfluxData_simps)

lemma fetchData_app:
  "app (fetchData cfg l1 l2 l3 w) =
     (app w)\<lparr>loading := False,
             error := (error (app w) \<or> l1 \<noteq> Started \<or> l2 \<noteq> Started \<or> l3 \<noteq> Started)\<rparr>"
  by (cases l1; cases l2; cases l3)
     (simp_all add: fetchData_def Let_def split_beta fetchInfluxData_simps setError_def setLoading_def)

section \<open>Traces\<close>

lemma run_append:
  "run gt cfg (xs @ ys) w = (case run gt cfg xs w of None \<Rightarrow> None | Some w' \<Rightarrow> run gt cfg ys w')"
  by (induction xs arbitrary: w) (simp_all split: option.splits)

text \<open>A query in flight collects the rows of the trace, in their order, until its last
  callback.\<close>

lemma fire_tracks_query:
  assumes "fire gt cfg e w = Some w'" and "pending w i = Some q" and "i < next_id w"
    and "e \<noteq> Complete i" and "e \<noteq> Error i"
  shows "pending w' i = Some (q\<lparr>results := results q @ map (\<lambda>r. \<lparr>time = gt (row_time r), val = row_value r\<rparr>) (rows_of i [e])\<rparr>)
         \<and> i < next_id w'"
proof (cases e)
  case (Tick l1 l2 l3)
  then show ?thesis using assms
    by (auto simp: fetchData_pending fetchData_next_id split: if_splits)
next
  case (Next j obj)
  then show ?thesis using assms
    by (auto simp: next_cb_push split: option.splits)
next
  case (Error j)
  then show ?thesis using assms by (auto split: option.splits)
next
  case (Complete j)
  then show ?thesis using assms by (auto split: option.splits)
next
  case Unmount
  then show ?thesis using assms by (auto simp: cleanup_def split: if_splits)
qed

lemma rows_of_Cons: "rows_of i (e # es) = rows_of i [e] @ rows_of i es"
  by (cases e) simp_all

lemma run_tracks_query:
  assumes "run gt cfg evs w = Some w'" and "pending w i = Some q" and "i < next_id w"
    and "Complete i \<notin> set evs" and "Error i \<notin> set evs"
  shows "pending w' i = Some (q\<lparr>results := results q @ map (\<lambda>r. \<lparr>time = gt (row_time r), val = row_value r\<rparr>) (rows_of i evs)\<rparr>)
         \<and> i < next_id w'"
  using assms
proof (induction evs arbitrary: w q)
  case Nil
  then show ?case by simp
next
  case (Cons e evs)
  from Cons.prems(1) obtain w1 where f: "fire gt cfg e w = Some w1" and r: "run gt cfg evs w1 = Some w'"
    by (auto split: option.splits)
  let ?q1 = "q\<lparr>results := results q @ map (\<lambda>r. \<lparr>time = gt (row_time r), val = row_value r\<rparr>) (rows_of i [e])\<rparr>"
  have s: "pending w1 i = Some ?q1 \<and> i < next_id w1"
    using fire_tracks_query[OF f Cons.prems(2,3)] Cons.prems(4,5) by auto
  have "pending w' i = Some (?q1\<lparr>results := results ?q1 @ map (\<lambda>r. \<lparr>time = gt (row_time r), val = row_value r\<rparr>) (rows_of i evs)\<rparr>)
         \<and> i < next_id w'"
    using Cons.IH[OF r _ _ _ _, of ?q1] s Cons.prems(4,5) by auto
  then show ?case by (subst rows_of_Cons) simp
qed

section \<open>The flags along a trace\<close>

lemma slot_inj: "slot s = slot t \<Longrightarrow> s = t"
  by (cases s; cases t) simp_all

lemma getData_setData: "getData s (setData t d a) = (if s = t then d else getData s a)"
  by (cases s; cases t) simp_all

lemma error_setData: "error (setData t d a) = error a"
  by (cases t) simp_all

lemma loading_setData: "loading (setData t d a) = loading a"
  by (cases t) simp_all

lemma getData_setError: "getData s (setError b a) = getData s a"
  by (cases s) (simp_all add: setError_def)

text \<open>No event clears the error flag; only a failure sets it.\<close>

lemma fire_error_mono: "fire gt cfg e w = Some w' \<Longrightarrow> error (app w) \<Longrightarrow> error (app w')"
  by (cases e) (auto simp: fetchData_app setError_def error_setData cleanup_def split: option.splits if_splits)

lemma run_error_mono: "run gt cfg evs w = Some w' \<Longrightarrow> error (app w) \<Longrightarrow> error (app w')"
  by (induction evs arbitrary: w) (auto split: option.splits dest: fire_error_mono)

lemma run_error_event:
  assumes "run gt cfg evs w = Some w'" and "Error i \<in> set evs"
  shows "error (app w')"
proof -
  from assms(2) obtain a b where evs: "evs = a @ Error i # b" by (auto dest: split_list)
  with assms(1) obtain w1 w2 where "run gt cfg a w = Some w1" and f: "fire gt cfg (Error i) w1 = Some w2"
    and r: "run gt cfg b w2 = Some w'"
    by (auto simp: run_append split: option.splits)
  from f have "error (app w2)" by (auto simp: setError_def split: option.splits)
  with r show ?thesis by (rule run_error_mono)
qed

lemma fire_error_frame:
  "fire gt cfg e w = Some w' \<Longrightarrow> \<not> is_Tick e \<Longrightarrow> \<forall>i. e \<noteq> Error i \<Longrightarrow> error (app w') = error (app w)"
  by (cases e) (auto simp: error_setData cleanup_def split: option.splits if_splits)

lemma run_error_frame:
  "run gt cfg evs w = Some w' \<Longrightarrow> \<forall>e\<in>set evs. \<not> is_Tick e \<Longrightarrow> \<forall>i. Error i \<notin> set evs \<Longrightarrow>
   error (app w') = error (app w)"
proof (induction evs arbitrary: w)
  case Nil
  then show ?case by simp
next
  case (Cons e evs)
  from Cons.prems(1) obtain w1 where f: "fire gt cfg e w = Some w1" and r: "run gt cfg evs w1 = Some w'"
    by (auto split: option.splits)
  have "error (app w1) = error (app w)"
    using f Cons.prems(2,3) by (intro fire_error_frame) auto
  moreover have "error (app w') = error (app w1)"
    using r Cons.prems(2,3) by (intro Cons.IH) auto
  ultimately show ?case by simp
qed

text \<open>Once cleared, the loading flag is clear after every step.\<close>

lemma fire_loading_false: "fire gt cfg e w = Some w' \<Longrightarrow> \<not> loading (app w) \<Longrightarrow> \<not> loading (app w')"
  by (cases e) (auto simp: fetchData_app setError_def loading_setData cleanup_def split: option.splits if_splits)

lemma run_loading_false: "run gt cfg evs w = Some w' \<Longrightarrow> \<not> loading (app w) \<Longrightarrow> \<not> loading (app w')"
  by (induction evs arbitrary: w) (auto split: option.splits dest: fire_loading_false)

text \<open>A cleared interval stays cleared, and no cycle starts.\<close>

lemma fire_interval_off: "fire gt cfg e w = Some w' \<Longrightarrow> \<not> interval w \<Longrightarrow> \<not> is_Tick e \<and> \<not> interval w' \<and> next_id w' = next_id w"
  by (cases e) (auto simp: cleanup_def split: option.splits if_splits)

lemma run_interval_off:
  "run gt cfg evs w = Some w' \<Longrightarrow> \<not> interval w \<Longrightarrow>
   (\<forall>e\<in>set evs. \<not> is_Tick e) \<and> \<not> interval w' \<and> next_id w' = next_id w"
proof (induction evs arbitrary: w)
  case Nil
  then show ?case by simp
next
  case (Cons e evs)
  from Cons.prems(1) obtain w1 where f: "fire gt cfg e w = Some w1" and r: "run gt cfg evs w1 = Some w'"
    by (auto split: option.splits)
  from fire_interval_off[OF f Cons.prems(2)] Cons.IH[OF r] show ?case by simp
qed

section \<open>One cycle without overlap\<close>

lemma rows_of_append: "rows_of i (xs @ ys) = rows_of i xs @ rows_of i ys"
proof (induction xs)
  case Nil
  then show ?case by simp
next
  case (Cons e xs)
  have "rows_of i ((e # xs) @ ys) = rows_of i [e] @ rows_of i (xs @ ys)"
    using rows_of_Cons[of i e "xs @ ys"] by simp
  also have "\<dots> = (rows_of i [e] @ rows_of i xs) @ rows_of i ys"
    using Cons.IH by simp
  also have "rows_of i [e] @ rows_of i xs = rows_of i (e # xs)"
    using rows_of_Cons[of i e xs] by simp
  finally show ?case .
qed

text \<open>A query that is not in flight gets no event, in a trace without Tick\<close>

lemma fire_dead_query:
  assumes "fire gt cfg e w = Some w'" and "\<not> is_Tick e" and "pending w i = None"
  shows "pending w' i = None \<and> rows_of i [e] = [] \<and> e \<noteq> Complete i \<and> e \<noteq> Error i"
  using assms by (cases e) (auto simp: cleanup_def split: option.splits if_splits)

lemma run_dead_query:
  "run gt cfg evs w = Some w' \<Longrightarrow> \<forall>e\<in>set evs. \<not> is_Tick e \<Longrightarrow> pending w i = None \<Longrightarrow>
   pending w' i = None \<and> rows_of i evs = [] \<and> Complete i \<notin> set evs \<and> Error i \<notin> set evs"
proof (induction evs arbitrary: w)
  case Nil
  then show ?case by simp
next
  case (Cons e evs)
  from Cons.prems(1) obtain w1 where f: "fire gt cfg e w = Some w1" and r: "run gt cfg evs w1 = Some w'"
    by (auto split: option.splits)
  have 1: "pending w1 i = None \<and> rows_of i [e] = [] \<and> e \<noteq> Complete i \<and> e \<noteq> Error i"
    using f Cons.prems(2,3) by (intro fire_dead_query) auto
  have 2: "pending w' i = None \<and> rows_of i evs = [] \<and> Complete i \<notin> set evs \<and> Error i \<notin> set evs"
    using r Cons.prems(2) 1 by (intro Cons.IH) auto
  show ?case using 1 2 rows_of_Cons[of i e evs] by auto
qed

text \<open>In a cycle started with no query in flight, a query in flight has the number of its slot\<close>

lemma fire_cycle_inv:
  assumes "fire gt cfg e w = Some w'" and "\<not> is_Tick e"
    and "\<forall>j q. pending w j = Some q \<longrightarrow> j = n + slot (setData_of q)"
  shows "\<forall>j q. pending w' j = Some q \<longrightarrow> j = n + slot (setData_of q)"
  using assms by (cases e) (auto simp: cleanup_def split: option.splits if_splits)

lemma fire_series_frame:
  assumes "fire gt cfg e w = Some w'" and "\<not> is_Tick e"
    and "\<forall>j q. pending w j = Some q \<longrightarrow> j = n + slot (setData_of q)"
    and "e \<noteq> Complete (n + slot s)"
  shows "getData s (app w') = getData s (app w)"
  using assms
  by (cases e) (auto simp: cleanup_def getData_setData getData_setError split: option.splits if_splits)

lemma run_series_frame:
  "run gt cfg evs w = Some w' \<Longrightarrow> \<forall>e\<in>set evs. \<not> is_Tick e \<Longrightarrow>
   \<forall>j q. pending w j = Some q \<longrightarrow> j = n + slot (setData_of q) \<Longrightarrow>
   Complete (n + slot s) \<notin> set evs \<Longrightarrow>
   getData s (app w') = getData s (app w)
   \<and> (\<forall>j q. pending w' j = Some q \<longrightarrow> j = n + slot (setData_of q))"
proof (induction evs arbitrary: w)
  case Nil
  then show ?case by simp
next
  case (Cons e evs)
  from Cons.prems(1) obtain w1 where f: "fire gt cfg e w = Some w1" and r: "run gt cfg evs w1 = Some w'"
    by (auto split: option.splits)
  have t: "\<not> is_Tick e" using Cons.prems(2) by simp
  have c: "e \<noteq> Complete (n + slot s)" using Cons.prems(4) by auto
  have 1: "getData s (app w1) = getData s (app w)"
    by (rule fire_series_frame[OF f t Cons.prems(3) c])
  have 2: "\<forall>j q. pending w1 j = Some q \<longrightarrow> j = n + slot (setData_of q)"
    by (rule fire_cycle_inv[OF f t Cons.prems(3)])
  have "getData s (app w') = getData s (app w1)
   \<and> (\<forall>j q. pending w' j = Some q \<longrightarrow> j = n + slot (setData_of q))"
    using Cons.prems(2,4) by (intro Cons.IH[OF r _ 2]) auto
  with 1 show ?case by simp
qed

lemma run_delivers:
  assumes r: "run gt cfg evs w = Some w'" and t: "\<forall>e\<in>set evs. \<not> is_Tick e"
    and inv: "\<forall>j q. pending w j = Some q \<longrightarrow> j = n + slot (setData_of q)"
    and p: "pending w (n + slot s) = Some q" and fresh: "n + slot s < next_id w"
    and c: "Complete (n + slot s) \<in> set evs"
  shows "getData s (app w') = results q @ map (\<lambda>r. \<lparr>time = gt (row_time r), val = row_value r\<rparr>) (rows_of (n + slot s) evs)
         \<and> pending w' (n + slot s) = None"
proof -
  let ?i = "n + slot s"
  let ?pt = "\<lambda>r. \<lparr>time = gt (row_time r), val = row_value r\<rparr>"
  from c obtain pre post where evs: "evs = pre @ Complete ?i # post" and first: "Complete ?i \<notin> set pre"
    by (auto dest: split_list_first)
  from r evs obtain w1 w2 where r1: "run gt cfg pre w = Some w1"
    and f: "fire gt cfg (Complete ?i) w1 = Some w2" and r2: "run gt cfg post w2 = Some w'"
    by (auto simp: run_append split: option.splits)
  have tpre: "\<forall>e\<in>set pre. \<not> is_Tick e" and tpost: "\<forall>e\<in>set post. \<not> is_Tick e"
    using t evs by auto
  have noerr: "Error ?i \<notin> set pre"
  proof
    assume "Error ?i \<in> set pre"
    then obtain a b where pre: "pre = a @ Error ?i # b" by (auto dest: split_list)
    with r1 obtain u1 u2 where "run gt cfg a w = Some u1" and fe: "fire gt cfg (Error ?i) u1 = Some u2"
      and rb: "run gt cfg b u2 = Some w1"
      by (auto simp: run_append split: option.splits)
    from fe have "pending u2 ?i = None" by (auto split: option.splits)
    with rb tpre pre have "pending w1 ?i = None" using run_dead_query[of gt cfg b u2 w1 ?i] by auto
    with f show False by simp
  qed
  have q1: "pending w1 ?i = Some (q\<lparr>results := results q @ map ?pt (rows_of ?i pre)\<rparr>)"
    using run_tracks_query[OF r1 p fresh first noerr] by simp
  have inv1: "\<forall>j q. pending w1 j = Some q \<longrightarrow> j = n + slot (setData_of q)"
    using run_series_frame[OF r1 tpre inv first] by simp
  have sq: "setData_of q = s" using inv p slot_inj by fastforce
  have d2: "getData s (app w2) = results q @ map ?pt (rows_of ?i pre)"
    using f q1 sq by (auto simp: getData_setData)
  have p2: "pending w2 ?i = None" using f q1 by auto
  have dead: "pending w' ?i = None \<and> rows_of ?i post = [] \<and> Complete ?i \<notin> set post \<and> Error ?i \<notin> set post"
    by (rule run_dead_query[OF r2 tpost p2])
  have inv2: "\<forall>j q. pending w2 j = Some q \<longrightarrow> j = n + slot (setData_of q)"
    by (rule fire_cycle_inv[OF f _ inv1]) simp
  have d3: "getData s (app w') = getData s (app w2)"
    using run_series_frame[OF r2 tpost inv2] dead by simp
  have "rows_of ?i evs = rows_of ?i pre"
    using dead by (simp add: evs rows_of_append)
  with d2 d3 dead show ?thesis by simp
qed

text \<open>A query ends once\<close>

lemma run_error_excludes_complete:
  assumes r: "run gt cfg evs w = Some w'" and t: "\<forall>e\<in>set evs. \<not> is_Tick e"
    and e: "Error i \<in> set evs"
  shows "Complete i \<notin> set evs"
proof
  assume "Complete i \<in> set evs"
  then obtain pre post where evs: "evs = pre @ Complete i # post" by (auto dest: split_list)
  from r evs obtain w1 w2 where r1: "run gt cfg pre w = Some w1"
    and f: "fire gt cfg (Complete i) w1 = Some w2" and r2: "run gt cfg post w2 = Some w'"
    by (auto simp: run_append split: option.splits)
  from f have p2: "pending w2 i = None" by (auto split: option.splits)
  have "Error i \<notin> set post" using run_dead_query[OF r2 _ p2] t evs by auto
  with e evs have "Error i \<in> set pre" by auto
  then obtain a b where pre: "pre = a @ Error i # b" by (auto dest: split_list)
  with r1 obtain u1 u2 where "run gt cfg a w = Some u1" and fe: "fire gt cfg (Error i) u1 = Some u2"
    and rb: "run gt cfg b u2 = Some w1"
    by (auto simp: run_append split: option.splits)
  from fe have "pending u2 i = None" by (auto split: option.splits)
  with rb t evs pre have "pending w1 i = None" using run_dead_query[of gt cfg b u2 w1 i] by auto
  with f show False by simp
qed

lemma mount_proj:
  "app (mount cfg l1 l2 l3 w) = app (fetchData cfg l1 l2 l3 w)"
  "pending (mount cfg l1 l2 l3 w) = pending (fetchData cfg l1 l2 l3 w)"
  "next_id (mount cfg l1 l2 l3 w) = next_id (fetchData cfg l1 l2 l3 w)"
  "interval (mount cfg l1 l2 l3 w) = True"
  by (simp_all add: mount_def)

lemma run_cycle_inv:
  "run gt cfg evs w = Some w' \<Longrightarrow> \<forall>e\<in>set evs. \<not> is_Tick e \<Longrightarrow>
   \<forall>j q. pending w j = Some q \<longrightarrow> j = n + slot (setData_of q) \<Longrightarrow>
   \<forall>j q. pending w' j = Some q \<longrightarrow> j = n + slot (setData_of q)"
proof (induction evs arbitrary: w)
  case Nil
  then show ?case by simp
next
  case (Cons e evs)
  from Cons.prems(1) obtain w1 where f: "fire gt cfg e w = Some w1" and r: "run gt cfg evs w1 = Some w'"
    by (auto split: option.splits)
  have 2: "\<forall>j q. pending w1 j = Some q \<longrightarrow> j = n + slot (setData_of q)"
    using Cons.prems(2) by (intro fire_cycle_inv[OF f _ Cons.prems(3)]) simp
  show ?case using Cons.prems(2) by (intro Cons.IH[OF r _ 2]) simp
qed

lemma run_error_in_cycle:
  assumes r: "run gt cfg evs w = Some w'" and t: "\<forall>e\<in>set evs. \<not> is_Tick e"
    and inv: "\<forall>j q. pending w j = Some q \<longrightarrow> j = n + slot (setData_of q)"
    and e: "Error i \<in> set evs"
  shows "\<exists>s. i = n + slot s"
proof -
  from e obtain a b where evs: "evs = a @ Error i # b" by (auto dest: split_list)
  with r obtain u1 u2 where ra: "run gt cfg a w = Some u1" and fe: "fire gt cfg (Error i) u1 = Some u2"
    by (auto simp: run_append split: option.splits)
  have "\<forall>j q. pending u1 j = Some q \<longrightarrow> j = n + slot (setData_of q)"
    using t evs by (intro run_cycle_inv[OF ra _ inv]) simp
  moreover from fe obtain q where "pending u1 i = Some q" by (auto split: option.splits)
  ultimately show ?thesis by blast
qed

text \<open>The world at the start of a cycle\<close>

lemma cycle_start_inv:
  assumes "\<forall>j. pending w0 j = None"
  shows "\<forall>j q. pending (fetchData cfg l1 l2 l3 w0) j = Some q \<longrightarrow> j = next_id w0 + slot (setData_of q)"
  using assms by (auto simp: fetchData_pending split: if_splits)

lemma cycle_start_pending:
  "pending (fetchData cfg l1 l2 l3 w0) (next_id w0 + slot s) =
     (if (case s of setTemperatureData \<Rightarrow> l1 | setHumidityData \<Rightarrow> l2 | setPressureData \<Rightarrow> l3) = Started
      then Some \<lparr>req_url = url cfg, req_token = token cfg, req_org = org cfg,
                 req_query = fluxQuery (bucket cfg)
                   (case s of setTemperatureData \<Rightarrow> ''temperature'' | setHumidityData \<Rightarrow> ''humidity''
                    | setPressureData \<Rightarrow> ''pressure''),
                 setData_of = s, results = []\<rparr>
      else pending w0 (next_id w0 + slot s))"
  by (cases s) (simp_all add: fetchData_pending)

lemma cycle_success_aux:
  assumes idle: "\<forall>j. pending w0 j = None"
    and w1: "pending w1 = pending (fetchData cfg Started Started Started w0)"
            "next_id w1 = next_id (fetchData cfg Started Started Started w0)"
            "app w1 = app (fetchData cfg Started Started Started w0)"
    and r: "run gt cfg evs w1 = Some w'"
    and t: "\<forall>e\<in>set evs. \<not> is_Tick e"
    and c: "\<forall>s. Complete (next_id w0 + slot s) \<in> set evs"
  shows "\<not> loading (app w') \<and> error (app w') = error (app w0)
     \<and> (\<forall>s. getData s (app w') =
          map (\<lambda>r. \<lparr>time = gt (row_time r), val = row_value r\<rparr>) (rows_of (next_id w0 + slot s) evs))"
proof -
  let ?n = "next_id w0"
  have inv: "\<forall>j q. pending w1 j = Some q \<longrightarrow> j = ?n + slot (setData_of q)"
    using cycle_start_inv[OF idle] w1(1) by simp
  have noerr: "\<forall>i. Error i \<notin> set evs"
  proof (intro allI notI)
    fix i assume e: "Error i \<in> set evs"
    then obtain s where "i = ?n + slot s" using run_error_in_cycle[OF r t inv] by blast
    with c have "Complete i \<in> set evs" by simp
    with run_error_excludes_complete[OF r t e] show False by simp
  qed
  have l: "\<not> loading (app w')"
    using run_loading_false[OF r] w1(3) by (simp add: fetchData_app)
  have e: "error (app w') = error (app w0)"
    using run_error_frame[OF r t noerr] w1(3) by (simp add: fetchData_app)
  have d: "getData s (app w') =
          map (\<lambda>r. \<lparr>time = gt (row_time r), val = row_value r\<rparr>) (rows_of (?n + slot s) evs)" for s
  proof -
    have p: "pending w1 (?n + slot s) = Some \<lparr>req_url = url cfg, req_token = token cfg, req_org = org cfg,
                 req_query = fluxQuery (bucket cfg)
                   (case s of setTemperatureData \<Rightarrow> ''temperature'' | setHumidityData \<Rightarrow> ''humidity''
                    | setPressureData \<Rightarrow> ''pressure''),
                 setData_of = s, results = []\<rparr>"
      using cycle_start_pending[of cfg Started Started Started w0 s] w1(1) by (cases s) simp_all
    have fresh: "?n + slot s < next_id w1" using w1(2) by (cases s) (simp_all add: fetchData_next_id)
    show ?thesis using run_delivers[OF r t inv p fresh] c by simp
  qed
  from l e d show ?thesis by blast
qed

lemmas world_eval = mount_proj fetchData_pending fetchData_next_id fetchData_app fetchData_interval
  world_initial_def App_initial_def next_cb_push setError_def cleanup_def
  fetchInfluxData_simps

lemmas world_unfold = mount_def fetchData_def fetchInfluxData_def Let_def world_initial_def
  App_initial_def setLoading_def setError_def next_cb_push cleanup_def

text \<open>\<open>x || ''\<close> on a string; and the module does not load when one of the four
  variables is not in \<open>.env\<close>.\<close>

lemma or_empty_id: "or_empty x = x"
  by (simp add: or_empty_def)

lemma config_absent_variable:
  assumes "env ''REACT_APP_INFLUXDB_URL'' = None \<or> env ''REACT_APP_INFLUXDB_ORG'' = None
     \<or> env ''REACT_APP_INFLUXDB_BUCKET'' = None \<or> env ''REACT_APP_INFLUXDB_TOKEN'' = None"
  shows "config env = Inl ReferenceError"
  using assms by (auto simp: config_def process_env_def split: option.splits sum.splits)

text \<open>A query that only receives rows collects them and leaves the state alone.\<close>

lemma run_Next_only:
  "pending w i = Some q \<Longrightarrow>
   \<exists>w'. run gt cfg (map (Next i) rows) w = Some w' \<and> app w' = app w
      \<and> pending w' i = Some (q\<lparr>results := results q @
            map (\<lambda>obj. \<lparr>time = gt (row_time obj), val = row_value obj\<rparr>) rows\<rparr>)"
proof (induction rows arbitrary: w q)
  case Nil
  then show ?case by simp
next
  case (Cons r rows)
  let ?q1 = "q\<lparr>results := results q @ [\<lparr>time = gt (row_time r), val = row_value r\<rparr>]\<rparr>"
  let ?w1 = "w\<lparr>pending := (pending w)(i \<mapsto> ?q1)\<rparr>"
  have f: "fire gt cfg (Next i r) w = Some ?w1" using Cons.prems by (simp add: next_cb_push)
  have "pending ?w1 i = Some ?q1" by simp
  from Cons.IH[OF this] obtain w' where "run gt cfg (map (Next i) rows) ?w1 = Some w'"
    and "app w' = app ?w1"
    and "pending w' i = Some (?q1\<lparr>results := results ?q1 @
            map (\<lambda>obj. \<lparr>time = gt (row_time obj), val = row_value obj\<rparr>) rows\<rparr>)"
    by blast
  then show ?case using f by simp
qed

text \<open>Every cycle makes three calls of \<open>fetchInfluxData\<close>, and nothing else does.\<close>

lemma fire_next_id:
  "fire gt cfg e w = Some w' \<Longrightarrow> next_id w' = next_id w + 3 * length (filter is_Tick [e])"
  by (cases e) (auto simp: fetchData_next_id cleanup_def split: option.splits if_splits)

lemma run_next_id:
  "run gt cfg evs w = Some w' \<Longrightarrow> next_id w' = next_id w + 3 * length (filter is_Tick evs)"
proof (induction evs arbitrary: w)
  case Nil
  then show ?case by simp
next
  case (Cons e evs)
  from Cons.prems obtain w1 where f: "fire gt cfg e w = Some w1" and r: "run gt cfg evs w1 = Some w'"
    by (auto split: option.splits)
  show ?case using fire_next_id[OF f] Cons.IH[OF r] by simp
qed

section \<open>Metric fetcher: one point per row\<close>

text \<open>
  C2. For every row stream delivered by the database to a query, in any interleaving with
  the other events, the series that the query hands to its setter when it completes
  holds exactly one point per row received, in the order in which the rows were
  received: no row dropped, none duplicated, none reordered.
\<close>

theorem fetcher_one_point_per_row:
  assumes "pending w i = Some q" and "results q = []" and "i < next_id w"
    and "run getTime cfg evs w = Some w'"
    and "Complete i \<notin> set evs" and "Error i \<notin> set evs"
  shows "\<exists>w''. fire getTime cfg (Complete i) w' = Some w''
           \<and> getData (setData_of q) (app w'') =
               map (\<lambda>obj. \<lparr>time = getTime (row_time obj), val = row_value obj\<rparr>) (rows_of i evs)
           \<and> length (getData (setData_of q) (app w'')) = length (rows_of i evs)"
proof -
  have "pending w' i =
      Some (q\<lparr>results := results q @
         map (\<lambda>obj. \<lparr>time = getTime (row_time obj), val = row_value obj\<rparr>) (rows_of i evs)\<rparr>)"
    using run_tracks_query[OF assms(4) assms(1) assms(3) assms(5) assms(6)] by simp
  then show ?thesis using assms(2) by (simp add: getData_setData)
qed

theorem fetcher_one_point_per_row_witness:
  "pending sample_mounted 0
     = Some \<lparr>req_url = ''https://db'', req_token = ''t0ken'', req_org = ''home'',
             req_query = fluxQuery ''env'' ''temperature'',
             setData_of = setTemperatureData, results = []\<rparr>
   \<and> map_option (temperatureData \<circ> app)
       (run sample_getTime
          sample_config
          [Next 0 \<lparr>row_time = ''1970-01-01T00:00:00Z'', row_value = Some (Finite (201 / 10))\<rparr>,
           Next 1 \<lparr>row_time = ''1970-01-01T00:00:00Z'', row_value = Some (Finite 55)\<rparr>,
           Next 0 \<lparr>row_time = ''1970-01-01T00:05:00Z'', row_value = None\<rparr>,
           Complete 0]
          sample_mounted)
     = Some [\<lparr>time = Finite 0, val = Some (Finite (201 / 10))\<rparr>,
             \<lparr>time = Finite 300000, val = None\<rparr>]"
  using fetcher_one_point_per_row
    [of sample_mounted
        0
        "\<lparr>req_url = ''https://db'', req_token = ''t0ken'', req_org = ''home'',
             req_query = fluxQuery ''env'' ''temperature'',
             setData_of = setTemperatureData, results = []\<rparr>"
        sample_getTime
        "sample_config"
        "[Next 0 \<lparr>row_time = ''1970-01-01T00:00:00Z'', row_value = Some (Finite (201 / 10))\<rparr>,
           Next 1 \<lparr>row_time = ''1970-01-01T00:00:00Z'', row_value = Some (Finite 55)\<rparr>,
           Next 0 \<lparr>row_time = ''1970-01-01T00:05:00Z'', row_value = None\<rparr>]"
        "the (run sample_getTime
          sample_config
          [Next 0 \<lparr>row_time = ''1970-01-01T00:00:00Z'', row_value = Some (Finite (201 / 10))\<rparr>,
           Next 1 \<lparr>row_time = ''1970-01-01T00:00:00Z'', row_value = Some (Finite 55)\<rparr>,
           Next 0 \<lparr>row_time = ''1970-01-01T00:05:00Z'', row_value = None\<rparr>]
          sample_mounted)"]
  by (simp add: world_eval)

text \<open>
  C3. For every row whose value is null or absent, the fetcher emits a point that carries
  the timestamp of the row and no value: the point is not dropped (the series has one
  point per row) and its value is not 0.
\<close>

theorem gap_row_keeps_point:
  assumes "pending w i = Some q" and "results q = []" and "i < next_id w"
    and "run getTime cfg evs w = Some w'"
    and "Complete i \<notin> set evs" and "Error i \<notin> set evs"
    and "k < length (rows_of i evs)" and "row_value (rows_of i evs ! k) = None"
  shows "\<exists>w''. fire getTime cfg (Complete i) w' = Some w''
           \<and> length (getData (setData_of q) (app w'')) = length (rows_of i evs)
           \<and> time (getData (setData_of q) (app w'') ! k) = getTime (row_time (rows_of i evs ! k))
           \<and> val (getData (setData_of q) (app w'') ! k) = None
           \<and> val (getData (setData_of q) (app w'') ! k) \<noteq> Some (Finite 0)"
proof -
  have "pending w' i =
      Some (q\<lparr>results := results q @
         map (\<lambda>obj. \<lparr>time = getTime (row_time obj), val = row_value obj\<rparr>) (rows_of i evs)\<rparr>)"
    using run_tracks_query[OF assms(4) assms(1) assms(3) assms(5) assms(6)] by simp
  then show ?thesis using assms(2,7,8) by (simp add: getData_setData)
qed

theorem gap_row_keeps_point_witness:
  "pending sample_mounted 1 =
     Some \<lparr>req_url = ''https://db'', req_token = ''t0ken'', req_org = ''home'',
           req_query = fluxQuery ''env'' ''humidity'', setData_of = setHumidityData, results = []\<rparr>
   \<and> rows_of 1
        [Next 1 \<lparr>row_time = ''1970-01-01T00:00:00Z'', row_value = Some (Finite 55)\<rparr>,
         Next 1 \<lparr>row_time = ''1970-01-01T00:05:00Z'', row_value = None\<rparr>] ! 1
       = \<lparr>row_time = ''1970-01-01T00:05:00Z'', row_value = None\<rparr>
   \<and> map_option (humidityData \<circ> app)
        (run sample_getTime sample_config
          [Next 1 \<lparr>row_time = ''1970-01-01T00:00:00Z'', row_value = Some (Finite 55)\<rparr>,
           Next 1 \<lparr>row_time = ''1970-01-01T00:05:00Z'', row_value = None\<rparr>,
           Complete 1] sample_mounted)
       = Some [\<lparr>time = Finite 0, val = Some (Finite 55)\<rparr>, \<lparr>time = Finite 300000, val = None\<rparr>]"
  using gap_row_keeps_point
    [of sample_mounted 1
        "\<lparr>req_url = ''https://db'', req_token = ''t0ken'', req_org = ''home'',
           req_query = fluxQuery ''env'' ''humidity'', setData_of = setHumidityData, results = []\<rparr>"
        sample_getTime sample_config
        "[Next 1 \<lparr>row_time = ''1970-01-01T00:00:00Z'', row_value = Some (Finite 55)\<rparr>,
          Next 1 \<lparr>row_time = ''1970-01-01T00:05:00Z'', row_value = None\<rparr>]"
        "the (run sample_getTime sample_config
          [Next 1 \<lparr>row_time = ''1970-01-01T00:00:00Z'', row_value = Some (Finite 55)\<rparr>,
           Next 1 \<lparr>row_time = ''1970-01-01T00:05:00Z'', row_value = None\<rparr>] sample_mounted)"
        1]
  by (simp add: world_eval)

section \<open>Metric fetcher: the frame of a successful fetch\<close>

text \<open>
  C10. When a single fetch for a field runs and completes successfully, only the series
  of its own setter is replaced, wholesale, with the list of points built from its rows;
  the two other series, the error flag and the loading flag keep their values.
\<close>

theorem fetch_success_frame:
  "(case fetchInfluxData cfg fld setD Started w of (w1, rejected) \<Rightarrow>
      \<not> rejected \<and> app w1 = app w
      \<and> (\<exists>w'. run getTime cfg (map (Next (next_id w)) rows @ [Complete (next_id w)]) w1 = Some w'
            \<and> getData setD (app w') =
                map (\<lambda>obj. \<lparr>time = getTime (row_time obj), val = row_value obj\<rparr>) rows
            \<and> (\<forall>s. s \<noteq> setD \<longrightarrow> getData s (app w') = getData s (app w))
            \<and> error (app w') = error (app w)
            \<and> loading (app w') = loading (app w)))"
proof -
  obtain w1 rejected where f: "fetchInfluxData cfg fld setD Started w = (w1, rejected)"
    by (cases "fetchInfluxData cfg fld setD Started w")
  have rej: "\<not> rejected" using fetchInfluxData_rejected[of cfg fld setD Started w] f by simp
  have a: "app w1 = app w" using fetchInfluxData_app[of cfg fld setD Started w] f by simp
  have p: "pending w1 (next_id w) = Some \<lparr>req_url = url cfg, req_token = token cfg, req_org = org cfg,
                 req_query = fluxQuery (bucket cfg) fld, setData_of = setD, results = []\<rparr>"
    using fetchInfluxData_pending[of cfg fld setD Started w "next_id w"] f by simp
  let ?pts = "map (\<lambda>obj. \<lparr>time = getTime (row_time obj), val = row_value obj\<rparr>) rows"
  obtain w' where r: "run getTime cfg (map (Next (next_id w)) rows @ [Complete (next_id w)]) w1 = Some w'"
    and aw: "app w' = setData setD ?pts (app w1)"
    using run_Next_only[OF p, of getTime cfg rows] by (auto simp: run_append)
  have "getData setD (app w') = ?pts" using aw by (simp add: getData_setData)
  moreover have "\<forall>s. s \<noteq> setD \<longrightarrow> getData s (app w') = getData s (app w)"
    using aw a by (simp add: getData_setData)
  moreover have "error (app w') = error (app w)" using aw a by (simp add: error_setData)
  moreover have "loading (app w') = loading (app w)" using aw a by (simp add: loading_setData)
  ultimately show ?thesis using f rej a r by auto
qed

theorem fetch_success_frame_witness:
  "map_option (\<lambda>w'. (temperatureData (app w'), humidityData (app w'), pressureData (app w'),
        error (app w'), loading (app w')))
     (run sample_getTime sample_config
        [Next 0 \<lparr>row_time = ''1970-01-01T00:00:00Z'', row_value = Some (Finite 55)\<rparr>, Complete 0]
        (fst (fetchInfluxData sample_config ''humidity'' setHumidityData Started world_initial)))
   = Some ([], [\<lparr>time = Finite 0, val = Some (Finite 55)\<rparr>], [], False, True)"
  using fetch_success_frame
    [where cfg = sample_config and fld = "''humidity''" and setD = setHumidityData
       and w = world_initial and getTime = sample_getTime
       and rows = "[\<lparr>row_time = ''1970-01-01T00:00:00Z'', row_value = Some (Finite 55)\<rparr>]"]
  by (auto simp: world_eval fetchInfluxData_simps split_beta)

section \<open>Root view: the updated-at indicator\<close>

text \<open>
  C9. Whenever the view is in the Ready state (neither loading nor error), the indicator
  after \<open>Updated at\<close> shows the formatted timestamp of the last point of the temperature
  series when that series is not empty, and \<open>N/A\<close> when it is empty.
\<close>

theorem updated_at_last_temperature_point:
  "\<not> loading s \<and> \<not> error s \<longrightarrow>
     updated_at (App_render toStr toLocaleString s) =
       Some (if temperatureData s = [] then ''N/A''
             else toLocaleString (time (last (temperatureData s))))"
  by (simp add: App_render_def last_conv_nth)

theorem updated_at_last_temperature_point_witness:
  "updated_at (App_render (\<lambda>x. []) (\<lambda>t. if t = Finite 300000 then ''1970/01/01 09:05:00'' else ''Invalid Date'')
      \<lparr>temperatureData = [\<lparr>time = Finite 0, val = Some (Finite (201 / 10))\<rparr>,
                           \<lparr>time = Finite 300000, val = None\<rparr>],
        humidityData = [], pressureData = [], loading = False, error = False\<rparr>)
     = Some ''1970/01/01 09:05:00''
   \<and> updated_at (App_render (\<lambda>x. []) (\<lambda>t. if t = Finite 300000 then ''1970/01/01 09:05:00'' else ''Invalid Date'')
      \<lparr>temperatureData = [], humidityData = [\<lparr>time = Finite 0, val = Some (Finite 55)\<rparr>],
        pressureData = [], loading = False, error = False\<rparr>)
     = Some ''N/A''"
  using updated_at_last_temperature_point
    [where s = "\<lparr>temperatureData = [\<lparr>time = Finite 0, val = Some (Finite (201 / 10))\<rparr>,
                           \<lparr>time = Finite 300000, val = None\<rparr>],
        humidityData = [], pressureData = [], loading = False, error = False\<rparr>"
       and toStr = "\<lambda>x. []"
       and toLocaleString = "\<lambda>t. if t = Finite 300000 then ''1970/01/01 09:05:00'' else ''Invalid Date''"]
    updated_at_last_temperature_point
    [where s = "\<lparr>temperatureData = [], humidityData = [\<lparr>time = Finite 0, val = Some (Finite 55)\<rparr>],
        pressureData = [], loading = False, error = False\<rparr>"
       and toStr = "\<lambda>x. []"
       and toLocaleString = "\<lambda>t. if t = Finite 300000 then ''1970/01/01 09:05:00'' else ''Invalid Date''"]
  by simp

section \<open>Poll controller: teardown\<close>

text \<open>
  C8. After the view is torn down, no further poll cycle fires: in every trace of a mounted
  component, no \<open>Tick\<close> follows the \<open>Unmount\<close>, the interval stays cleared, and the number
  of calls of \<open>fetchInfluxData\<close> stays three times the number of cycles that ran before the
  teardown (the one of the mount and one for each earlier \<open>Tick\<close>).
\<close>

theorem no_cycle_after_teardown:
  assumes "run getTime cfg (before @ Unmount # after) (mount cfg l1 l2 l3 world_initial) = Some w'"
  shows "(\<forall>e\<in>set after. \<not> is_Tick e) \<and> \<not> interval w'
         \<and> next_id w' = 3 * Suc (length (filter is_Tick before))"
proof -
  from assms obtain w1 w2 where r1: "run getTime cfg before (mount cfg l1 l2 l3 world_initial) = Some w1"
    and f: "fire getTime cfg Unmount w1 = Some w2" and r2: "run getTime cfg after w2 = Some w'"
    by (auto simp: run_append split: option.splits)
  from f have off: "\<not> interval w2" and n2: "next_id w2 = next_id w1"
    by (auto simp: cleanup_def split: if_splits)
  have n1: "next_id w1 = 3 * Suc (length (filter is_Tick before))"
    using run_next_id[OF r1] by (simp add: mount_proj fetchData_next_id world_initial_def)
  from run_interval_off[OF r2 off] n1 n2 show ?thesis by simp
qed

theorem no_cycle_after_teardown_witness:
  "(run sample_getTime sample_config (sample_before_teardown @ Unmount # sample_after_teardown)
        sample_mounted \<noteq> None
    \<and> filter is_Tick sample_after_teardown = []
    \<and> next_id (the (run sample_getTime sample_config
          (sample_before_teardown @ Unmount # sample_after_teardown) sample_mounted)) = 6
    \<and> run sample_getTime sample_config
        ([Complete 0, Complete 1, Complete 2] @ Unmount # [Tick Started Started Started])
        sample_mounted = None)
   \<and> (\<not> interval (the (run sample_getTime sample_config
          (sample_before_teardown @ Unmount # sample_after_teardown) sample_mounted))
      \<and> next_id (the (run sample_getTime sample_config
          (sample_before_teardown @ Unmount # sample_after_teardown) sample_mounted))
        = 3 * Suc (length (filter is_Tick sample_before_teardown)))"
proof -
  have h: "run sample_getTime sample_config (sample_before_teardown @ Unmount # sample_after_teardown)
        sample_mounted \<noteq> None
    \<and> filter is_Tick sample_after_teardown = []
    \<and> next_id (the (run sample_getTime sample_config
          (sample_before_teardown @ Unmount # sample_after_teardown) sample_mounted)) = 6
    \<and> run sample_getTime sample_config
        ([Complete 0, Complete 1, Complete 2] @ Unmount # [Tick Started Started Started])
        sample_mounted = None"
    by code_simp
  have r: "run sample_getTime sample_config (sample_before_teardown @ Unmount # sample_after_teardown)
        sample_mounted
     = Some (the (run sample_getTime sample_config
          (sample_before_teardown @ Unmount # sample_after_teardown) sample_mounted))"
    by (rule option.collapse[symmetric, OF conjunct1[OF h]])
  show ?thesis
    by (rule conjI[OF h conjunct2[OF no_cycle_after_teardown[OF r]]])
qed

section \<open>Poll controller: a cycle whose three fetches succeed\<close>

text \<open>
  The claim C4 as it is written fails on the code in two ways. No statement of the
  component calls \<open>setError(false)\<close>: after a first cycle whose temperature fetch failed,
  a second cycle whose three fetches succeed ends with the error flag still set. And a
  cycle that overlaps an earlier one can end with a series that is not its own: the
  temperature query of the first cycle, completing after the one of the second cycle,
  replaces the series again.
\<close>

theorem error_flag_survives_success_counterexample:
  "map_option (\<lambda>w'. (loading (app w'), error (app w')))
     (run sample_getTime sample_config
        [Error 0, Complete 1, Complete 2,
         Tick Started Started Started, Complete 3, Complete 4, Complete 5]
        sample_mounted) = Some (False, True)
   \<and> map_option (temperatureData \<circ> app)
     (run sample_getTime sample_config
        [Tick Started Started Started,
         Next 3 \<lparr>row_time = ''1970-01-01T00:05:00Z'', row_value = Some (Finite (204 / 10))\<rparr>,
         Complete 3, Complete 0, Complete 4, Complete 5]
        sample_mounted) = Some []"
  by code_simp

text \<open>
  C4 (amended). Every poll cycle that starts while no fetch is in flight, is not overlapped
  by a later cycle and in which the three fetches succeed ends with the loading flag
  false, the three series populated with the points fetched by its own three queries,
  and the error flag as it was before the cycle: false if no earlier fetch failed, still
  true otherwise.
\<close>

theorem successful_cycle:
  assumes "\<forall>j. pending w0 j = None"
    and "w1 = fetchData cfg Started Started Started w0 \<or> w1 = mount cfg Started Started Started w0"
    and "run getTime cfg evs w1 = Some w'"
    and "\<forall>e\<in>set evs. \<not> is_Tick e"
    and "Complete (next_id w0) \<in> set evs"
    and "Complete (next_id w0 + 1) \<in> set evs"
    and "Complete (next_id w0 + 2) \<in> set evs"
  shows "loading (app w') = False \<and> error (app w') = error (app w0)
     \<and> temperatureData (app w') =
          map (\<lambda>obj. \<lparr>time = getTime (row_time obj), val = row_value obj\<rparr>) (rows_of (next_id w0) evs)
     \<and> humidityData (app w') =
          map (\<lambda>obj. \<lparr>time = getTime (row_time obj), val = row_value obj\<rparr>) (rows_of (next_id w0 + 1) evs)
     \<and> pressureData (app w') =
          map (\<lambda>obj. \<lparr>time = getTime (row_time obj), val = row_value obj\<rparr>) (rows_of (next_id w0 + 2) evs)"
proof -
  have w1: "pending w1 = pending (fetchData cfg Started Started Started w0)"
           "next_id w1 = next_id (fetchData cfg Started Started Started w0)"
           "app w1 = app (fetchData cfg Started Started Started w0)"
    using assms(2) by (auto simp: mount_proj)
  have c: "\<forall>s. Complete (next_id w0 + slot s) \<in> set evs"
  proof
    fix s show "Complete (next_id w0 + slot s) \<in> set evs"
      using assms(5,6,7) by (cases s) simp_all
  qed
  have all: "\<not> loading (app w') \<and> error (app w') = error (app w0)
     \<and> (\<forall>s. getData s (app w') =
          map (\<lambda>r. \<lparr>time = getTime (row_time r), val = row_value r\<rparr>) (rows_of (next_id w0 + slot s) evs))"
    by (rule cycle_success_aux[OF assms(1) w1 assms(3) assms(4) c])
  then have d: "getData s (app w') =
          map (\<lambda>r. \<lparr>time = getTime (row_time r), val = row_value r\<rparr>) (rows_of (next_id w0 + slot s) evs)" for s
    by blast
  from all have l: "\<not> loading (app w')" and e: "error (app w') = error (app w0)"
    by simp_all
  show ?thesis
    using l e d[of setTemperatureData] d[of setHumidityData] d[of setPressureData] by simp
qed

theorem successful_cycle_witness:
  "(error (app sample_failed_once) = True
    \<and> next_id sample_failed_once = 3
    \<and> run sample_getTime sample_config sample_second_cycle
         (fetchData sample_config Started Started Started sample_failed_once) \<noteq> None
    \<and> filter is_Tick sample_second_cycle = []
    \<and> map (\<lambda>obj. \<lparr>time = sample_getTime (row_time obj), val = row_value obj\<rparr>)
         (rows_of 3 sample_second_cycle)
       = [\<lparr>time = Finite 0, val = Some (Finite (201 / 10))\<rparr>, \<lparr>time = Finite 300000, val = None\<rparr>])
   \<and> (loading (app (the (run sample_getTime sample_config sample_second_cycle
         (fetchData sample_config Started Started Started sample_failed_once)))) = False
     \<and> error (app (the (run sample_getTime sample_config sample_second_cycle
         (fetchData sample_config Started Started Started sample_failed_once))))
        = error (app sample_failed_once)
     \<and> temperatureData (app (the (run sample_getTime sample_config sample_second_cycle
         (fetchData sample_config Started Started Started sample_failed_once))))
        = map (\<lambda>obj. \<lparr>time = sample_getTime (row_time obj), val = row_value obj\<rparr>)
            (rows_of (next_id sample_failed_once) sample_second_cycle)
     \<and> humidityData (app (the (run sample_getTime sample_config sample_second_cycle
         (fetchData sample_config Started Started Started sample_failed_once))))
        = map (\<lambda>obj. \<lparr>time = sample_getTime (row_time obj), val = row_value obj\<rparr>)
            (rows_of (next_id sample_failed_once + 1) sample_second_cycle)
     \<and> pressureData (app (the (run sample_getTime sample_config sample_second_cycle
         (fetchData sample_config Started Started Started sample_failed_once))))
        = map (\<lambda>obj. \<lparr>time = sample_getTime (row_time obj), val = row_value obj\<rparr>)
            (rows_of (next_id sample_failed_once + 2) sample_second_cycle))"
proof -
  have h: "error (app sample_failed_once) = True
    \<and> next_id sample_failed_once = 3
    \<and> run sample_getTime sample_config sample_second_cycle
         (fetchData sample_config Started Started Started sample_failed_once) \<noteq> None
    \<and> filter is_Tick sample_second_cycle = []
    \<and> map (\<lambda>obj. \<lparr>time = sample_getTime (row_time obj), val = row_value obj\<rparr>)
         (rows_of 3 sample_second_cycle)
       = [\<lparr>time = Finite 0, val = Some (Finite (201 / 10))\<rparr>, \<lparr>time = Finite 300000, val = None\<rparr>]"
    by code_simp
  have idle: "\<forall>j. pending sample_failed_once j = None"
    by (simp add: world_unfold)
  have n: "next_id sample_failed_once = 3"
    using h by (elim conjE)
  have r: "run sample_getTime sample_config sample_second_cycle
         (fetchData sample_config Started Started Started sample_failed_once)
       = Some (the (run sample_getTime sample_config sample_second_cycle
         (fetchData sample_config Started Started Started sample_failed_once)))"
    using h by (intro option.collapse[symmetric]) (elim conjE)
  have t: "\<forall>e\<in>set sample_second_cycle. \<not> is_Tick e"
    by simp
  have c0: "Complete (next_id sample_failed_once) \<in> set sample_second_cycle"
    and c1: "Complete (next_id sample_failed_once + 1) \<in> set sample_second_cycle"
    and c2: "Complete (next_id sample_failed_once + 2) \<in> set sample_second_cycle"
    unfolding n by simp_all
  show ?thesis
    by (rule conjI[OF h successful_cycle[OF idle disjI1[OF refl] r t c0 c1 c2]])
qed

section \<open>Poll controller: a cycle with one failing fetch\<close>

text \<open>
  C5. In every poll cycle in which exactly one of the three fetches fails, at its launch
  or by an error of its query, and the two others do not fail, the error flag is true
  at every moment after the failure, and the two others are not aborted: as long as one
  of them has not completed it is still in flight with the rows it has received, and
  it can complete and hand exactly these points to its setter. Where the cycle started
  with no fetch in flight and no later cycle overlaps it, the series of a completed
  fetch is still the one it delivered.
\<close>

theorem one_failure_cycle:
  assumes start: "w1 = fetchData cfg l1 l2 l3 w0 \<or> w1 = mount cfg l1 l2 l3 w0"
    and r: "run getTime cfg evs w1 = Some w'"
    and failed: "(case failing of setTemperatureData \<Rightarrow> l1 | setHumidityData \<Rightarrow> l2
                  | setPressureData \<Rightarrow> l3) \<noteq> Started
                 \<or> Error (next_id w0 + slot failing) \<in> set evs"
    and others: "\<forall>s. s \<noteq> failing \<longrightarrow>
                 (case s of setTemperatureData \<Rightarrow> l1 | setHumidityData \<Rightarrow> l2
                  | setPressureData \<Rightarrow> l3) = Started
                 \<and> Error (next_id w0 + slot s) \<notin> set evs"
  shows "error (app w') = True
     \<and> (\<forall>s. s \<noteq> failing \<and> Complete (next_id w0 + slot s) \<notin> set evs \<longrightarrow>
          (\<exists>q w''. pending w' (next_id w0 + slot s) = Some q
             \<and> results q =
                 map (\<lambda>obj. \<lparr>time = getTime (row_time obj), val = row_value obj\<rparr>)
                   (rows_of (next_id w0 + slot s) evs)
             \<and> fire getTime cfg (Complete (next_id w0 + slot s)) w' = Some w''
             \<and> getData s (app w'') =
                 map (\<lambda>obj. \<lparr>time = getTime (row_time obj), val = row_value obj\<rparr>)
                   (rows_of (next_id w0 + slot s) evs)))
     \<and> ((\<forall>j. pending w0 j = None) \<and> (\<forall>e\<in>set evs. \<not> is_Tick e) \<longrightarrow>
          (\<forall>s. s \<noteq> failing \<and> Complete (next_id w0 + slot s) \<in> set evs \<longrightarrow>
             getData s (app w') =
               map (\<lambda>obj. \<lparr>time = getTime (row_time obj), val = row_value obj\<rparr>)
                 (rows_of (next_id w0 + slot s) evs)))"
proof -
  let ?n = "next_id w0"
  let ?pt = "\<lambda>obj. \<lparr>time = getTime (row_time obj), val = row_value obj\<rparr>"
  have w1: "pending w1 = pending (fetchData cfg l1 l2 l3 w0)"
           "next_id w1 = next_id (fetchData cfg l1 l2 l3 w0)"
           "app w1 = app (fetchData cfg l1 l2 l3 w0)"
    using start by (auto simp: mount_proj)
  have err: "error (app w')"
  proof (cases "Error (?n + slot failing) \<in> set evs")
    case True
    then show ?thesis by (rule run_error_event[OF r])
  next
    case False
    with failed have "(case failing of setTemperatureData \<Rightarrow> l1 | setHumidityData \<Rightarrow> l2
                  | setPressureData \<Rightarrow> l3) \<noteq> Started" by simp
    then have "error (app w1)" by (cases failing) (simp_all add: w1(3) fetchData_app)
    then show ?thesis by (rule run_error_mono[OF r])
  qed
  have p: "pending w1 (?n + slot s) = Some \<lparr>req_url = url cfg, req_token = token cfg, req_org = org cfg,
                 req_query = fluxQuery (bucket cfg)
                   (case s of setTemperatureData \<Rightarrow> ''temperature'' | setHumidityData \<Rightarrow> ''humidity''
                    | setPressureData \<Rightarrow> ''pressure''),
                 setData_of = s, results = []\<rparr>" if "s \<noteq> failing" for s
    using cycle_start_pending[of cfg l1 l2 l3 w0 s] others that w1(1) by simp
  have fresh: "?n + slot s < next_id w1" for s
    using w1(2) by (cases s) (simp_all add: fetchData_next_id)
  have flight: "\<exists>q w''. pending w' (?n + slot s) = Some q
             \<and> results q = map ?pt (rows_of (?n + slot s) evs)
             \<and> fire getTime cfg (Complete (?n + slot s)) w' = Some w''
             \<and> getData s (app w'') = map ?pt (rows_of (?n + slot s) evs)"
    if s: "s \<noteq> failing" and nc: "Complete (?n + slot s) \<notin> set evs" for s
  proof -
    from others s have ne: "Error (?n + slot s) \<notin> set evs" by simp
    from run_tracks_query[OF r p[OF s] fresh nc ne] show ?thesis
      by (simp add: getData_setData)
  qed
  have fin: "getData s (app w') = map ?pt (rows_of (?n + slot s) evs)"
    if idle: "\<forall>j. pending w0 j = None" and t: "\<forall>e\<in>set evs. \<not> is_Tick e"
      and s: "s \<noteq> failing" and c: "Complete (?n + slot s) \<in> set evs" for s
  proof -
    have inv: "\<forall>j q. pending w1 j = Some q \<longrightarrow> j = ?n + slot (setData_of q)"
      using cycle_start_inv[OF idle] w1(1) by simp
    from run_delivers[OF r t inv p[OF s] fresh c] show ?thesis by simp
  qed
  from err flight fin show ?thesis by blast
qed

theorem one_failure_cycle_witness:
  "(run sample_getTime sample_config
       [Error 0, Next 1 \<lparr>row_time = ''1970-01-01T00:00:00Z'', row_value = Some (Finite 55)\<rparr>,
        Complete 1, Next 2 \<lparr>row_time = ''1970-01-01T00:00:00Z'', row_value = Some (Finite 1013)\<rparr>]
       sample_mounted \<noteq> None
    \<and> map_option (\<lambda>w'. (error (app w'), humidityData (app w'), map_option results (pending w' 2)))
        (run sample_getTime sample_config
          [Error 0, Next 1 \<lparr>row_time = ''1970-01-01T00:00:00Z'', row_value = Some (Finite 55)\<rparr>,
           Complete 1, Next 2 \<lparr>row_time = ''1970-01-01T00:00:00Z'', row_value = Some (Finite 1013)\<rparr>]
          sample_mounted)
       = Some (True, [\<lparr>time = Finite 0, val = Some (Finite 55)\<rparr>],
               Some [\<lparr>time = Finite 0, val = Some (Finite 1013)\<rparr>]))
   \<and> error (app (the (run sample_getTime sample_config
       [Error 0, Next 1 \<lparr>row_time = ''1970-01-01T00:00:00Z'', row_value = Some (Finite 55)\<rparr>,
        Complete 1, Next 2 \<lparr>row_time = ''1970-01-01T00:00:00Z'', row_value = Some (Finite 1013)\<rparr>]
       sample_mounted))) = True"
proof -
  let ?evs = "[Error 0, Next 1 \<lparr>row_time = ''1970-01-01T00:00:00Z'', row_value = Some (Finite 55)\<rparr>,
        Complete 1, Next 2 \<lparr>row_time = ''1970-01-01T00:00:00Z'', row_value = Some (Finite 1013)\<rparr>]"
  have h: "run sample_getTime sample_config ?evs sample_mounted \<noteq> None
    \<and> map_option (\<lambda>w'. (error (app w'), humidityData (app w'), map_option results (pending w' 2)))
        (run sample_getTime sample_config ?evs sample_mounted)
       = Some (True, [\<lparr>time = Finite 0, val = Some (Finite 55)\<rparr>],
               Some [\<lparr>time = Finite 0, val = Some (Finite 1013)\<rparr>])"
    by code_simp
  have r: "run sample_getTime sample_config ?evs sample_mounted
       = Some (the (run sample_getTime sample_config ?evs sample_mounted))"
    by (rule option.collapse[symmetric, OF conjunct1[OF h]])
  have failed: "(case setTemperatureData of setTemperatureData \<Rightarrow> Started | setHumidityData \<Rightarrow> Started
                  | setPressureData \<Rightarrow> Started) \<noteq> Started
                 \<or> Error (next_id world_initial + slot setTemperatureData) \<in> set ?evs"
    by (simp add: world_initial_def)
  have others: "\<forall>s. s \<noteq> setTemperatureData \<longrightarrow>
                 (case s of setTemperatureData \<Rightarrow> Started | setHumidityData \<Rightarrow> Started
                  | setPressureData \<Rightarrow> Started) = Started
                 \<and> Error (next_id world_initial + slot s) \<notin> set ?evs"
  proof (intro allI impI)
    fix s :: setter assume "s \<noteq> setTemperatureData"
    then show "(case s of setTemperatureData \<Rightarrow> Started | setHumidityData \<Rightarrow> Started
                  | setPressureData \<Rightarrow> Started) = Started
                 \<and> Error (next_id world_initial + slot s) \<notin> set ?evs"
      by (cases s) (simp_all add: world_initial_def)
  qed
  show ?thesis
    by (rule conjI[OF h conjunct1[OF one_failure_cycle[OF disjI2[OF refl] r failed others]]])
qed

section \<open>Poll controller: when the effects of a cycle are applied\<close>

text \<open>
  C6. The promise of \<open>fetchInfluxData\<close> is fulfilled when \<open>queryRows\<close> has returned, not
  when the query has settled, so \<open>await Promise.all\<close> does not wait for the fetches and
  \<open>fetchData\<close> clears the loading flag at once: after the start of any cycle the flag is
  false while the three queries are in flight, without a row received. The view of the
  mounted component is then the dashboard, with \<open>N/A\<close>; when the temperature query alone
  has completed, its series is in the state while the two others are still in flight;
  and when the humidity query alone has failed, the view is the error message while
  the two others are still in flight.
\<close>

theorem loading_cleared_before_fetches_settle:
  "loading (app (fetchData cfg Started Started Started w)) = False
   \<and> map_option results (pending (fetchData cfg Started Started Started w) (next_id w)) = Some []
   \<and> map_option results (pending (fetchData cfg Started Started Started w) (next_id w + 1)) = Some []
   \<and> map_option results (pending (fetchData cfg Started Started Started w) (next_id w + 2)) = Some []
   \<and> updated_at (App_render toStr toLocaleString (app sample_mounted)) = Some ''N/A''
   \<and> map_option (\<lambda>w'. (loading (app w'), temperatureData (app w'),
          map_option results (pending w' 1), map_option results (pending w' 2)))
        (run sample_getTime sample_config
           [Next 0 \<lparr>row_time = ''1970-01-01T00:00:00Z'', row_value = Some (Finite (201 / 10))\<rparr>,
            Complete 0] sample_mounted)
       = Some (False, [\<lparr>time = Finite 0, val = Some (Finite (201 / 10))\<rparr>], Some [], Some [])
   \<and> map_option (\<lambda>w'. (App_render toStr toLocaleString (app w'),
          map_option results (pending w' 0), map_option results (pending w' 2)))
        (run sample_getTime sample_config [Error 1] sample_mounted)
       = Some (ErrorMessage, Some [], Some [])"
  by (simp add: fetchData_app fetchData_pending mount_proj world_initial_def App_initial_def
        App_render_def next_cb_push setError_def)

text \<open>After the mount the loading message is never shown again, whatever happens.\<close>

lemma loading_false_after_mount:
  "run getTime cfg evs (mount cfg l1 l2 l3 w) = Some w' \<Longrightarrow> loading (app w') = False"
  using run_loading_false[of getTime cfg evs "mount cfg l1 l2 l3 w" w']
  by (simp add: mount_proj fetchData_app)

section \<open>Config provider: missing and empty parameters\<close>

text \<open>
  The claim C7 as it is written fails on the code. With the four variables in \<open>.env\<close> and
  their values empty, \<open>config\<close> is the record of four empty strings: nothing raises or
  sets the error flag, and (when the library accepts the calls) the mount issues its
  queries with the empty url, token and organization. And with a variable that is not
  in \<open>.env\<close>, here the url, the parameter does not resolve to the empty string: the
  module throws while it is loaded.
\<close>

theorem config_empty_parameters_counterexample:
  "config [''REACT_APP_INFLUXDB_URL'' \<mapsto> [], ''REACT_APP_INFLUXDB_ORG'' \<mapsto> [],
           ''REACT_APP_INFLUXDB_BUCKET'' \<mapsto> [], ''REACT_APP_INFLUXDB_TOKEN'' \<mapsto> []]
     = Inr \<lparr>url = [], org = [], bucket = [], token = []\<rparr>
   \<and> error (app (mount \<lparr>url = [], org = [], bucket = [], token = []\<rparr>
        Started Started Started world_initial)) = False
   \<and> map_option (\<lambda>q. (req_url q, req_token q, req_org q, req_query q))
        (pending (mount \<lparr>url = [], org = [], bucket = [], token = []\<rparr>
           Started Started Started world_initial) 0)
       = Some ([], [], [], fluxQuery [] ''temperature'')
   \<and> config [''REACT_APP_INFLUXDB_ORG'' \<mapsto> ''home'', ''REACT_APP_INFLUXDB_BUCKET'' \<mapsto> ''env'',
             ''REACT_APP_INFLUXDB_TOKEN'' \<mapsto> ''t0ken'']
     = Inl ReferenceError"
  by (simp add: config_def process_env_def or_empty_def mount_proj fetchData_app fetchData_pending
        world_initial_def App_initial_def)

text \<open>
  C7 (amended). Each of the four connection parameters resolves to the value that its
  variable has in the environment when the four variables are present there, to the
  empty string when that value is empty; an empty parameter is not checked or treated
  as an error: the configuration is built all the same, and a fetch whose library calls
  are accepted registers its query with the resolved url, token, organization and
  bucket, whatever they are.
\<close>

theorem config_resolves_environment:
  assumes "env ''REACT_APP_INFLUXDB_URL'' = Some u"
    and "env ''REACT_APP_INFLUXDB_ORG'' = Some g"
    and "env ''REACT_APP_INFLUXDB_BUCKET'' = Some b"
    and "env ''REACT_APP_INFLUXDB_TOKEN'' = Some t"
  shows "config env = Inr \<lparr>url = u, org = g, bucket = b, token = t\<rparr>
   \<and> fetchInfluxData \<lparr>url = u, org = g, bucket = b, token = t\<rparr> fld setD Started w =
       (w\<lparr>next_id := Suc (next_id w),
          pending := (pending w)(next_id w \<mapsto>
            \<lparr>req_url = u, req_token = t, req_org = g, req_query = fluxQuery b fld,
             setData_of = setD, results = []\<rparr>)\<rparr>, False)"
proof
  show "config env = Inr \<lparr>url = u, org = g, bucket = b, token = t\<rparr>"
    using assms by (simp add: config_def process_env_def or_empty_id)
next
  show "fetchInfluxData \<lparr>url = u, org = g, bucket = b, token = t\<rparr> fld setD Started w =
       (w\<lparr>next_id := Suc (next_id w),
          pending := (pending w)(next_id w \<mapsto>
            \<lparr>req_url = u, req_token = t, req_org = g, req_query = fluxQuery b fld,
             setData_of = setD, results = []\<rparr>)\<rparr>, False)"
    by (simp add: fetchInfluxData_def)
qed

theorem config_resolves_environment_witness:
  "[''REACT_APP_INFLUXDB_URL'' \<mapsto> ''https://db'', ''REACT_APP_INFLUXDB_ORG'' \<mapsto> [],
    ''REACT_APP_INFLUXDB_BUCKET'' \<mapsto> ''env'', ''REACT_APP_INFLUXDB_TOKEN'' \<mapsto> []]
     ''REACT_APP_INFLUXDB_URL'' = Some ''https://db''
   \<and> [''REACT_APP_INFLUXDB_URL'' \<mapsto> ''https://db'', ''REACT_APP_INFLUXDB_ORG'' \<mapsto> [],
      ''REACT_APP_INFLUXDB_BUCKET'' \<mapsto> ''env'', ''REACT_APP_INFLUXDB_TOKEN'' \<mapsto> []]
     ''REACT_APP_INFLUXDB_ORG'' = Some []
   \<and> [''REACT_APP_INFLUXDB_URL'' \<mapsto> ''https://db'', ''REACT_APP_INFLUXDB_ORG'' \<mapsto> [],
      ''REACT_APP_INFLUXDB_BUCKET'' \<mapsto> ''env'', ''REACT_APP_INFLUXDB_TOKEN'' \<mapsto> []]
     ''REACT_APP_INFLUXDB_BUCKET'' = Some ''env''
   \<and> [''REACT_APP_INFLUXDB_URL'' \<mapsto> ''https://db'', ''REACT_APP_INFLUXDB_ORG'' \<mapsto> [],
      ''REACT_APP_INFLUXDB_BUCKET'' \<mapsto> ''env'', ''REACT_APP_INFLUXDB_TOKEN'' \<mapsto> []]
     ''REACT_APP_INFLUXDB_TOKEN'' = Some []
   \<and> config [''REACT_APP_INFLUXDB_URL'' \<mapsto> ''https://db'', ''REACT_APP_INFLUXDB_ORG'' \<mapsto> [],
      ''REACT_APP_INFLUXDB_BUCKET'' \<mapsto> ''env'', ''REACT_APP_INFLUXDB_TOKEN'' \<mapsto> []]
     = Inr \<lparr>url = ''https://db'', org = [], bucket = ''env'', token = []\<rparr>"
  using config_resolves_environment
    [where env = "[''REACT_APP_INFLUXDB_URL'' \<mapsto> ''https://db'', ''REACT_APP_INFLUXDB_ORG'' \<mapsto> [],
       ''REACT_APP_INFLUXDB_BUCKET'' \<mapsto> ''env'', ''REACT_APP_INFLUXDB_TOKEN'' \<mapsto> []]"
       and u = "''https://db''" and g = "[]" and b = "''env''" and t = "[]"]
  by simp

end
